theory Spec2Isabelle
  imports Complex_Main
begin

section \<open>JavaScript values\<close>

text \<open>
  The program is JavaScript: the bundle \<^verbatim>\<open>dist/rboxer\<close> holds Leaflet's \<^verbatim>\<open>LatLng\<close> and
  \<^verbatim>\<open>LatLngBounds\<close>, the \<^verbatim>\<open>RouteBoxer\<close> object and the entry point \<^verbatim>\<open>mkBox\<close>.

  A JavaScript Number is modelled by \<open>jsnum\<close>: \<open>NaN\<close>, the two infinities, and the
  finite numbers. The finite numbers are the reals and arithmetic on them is exact:
  the rounding of IEEE-754 doubles and the sign of zero are not modelled, so a property
  that depends on the last digits of a double is outside of this development.
  Every special case of the operators (what is \<open>NaN\<close>, what is infinite, what
  \<^verbatim>\<open>%\<close> does with a negative dividend) is as ECMAScript defines it.
\<close>

datatype jsnum = NaN | Fin real | PInf | NInf

fun js_neg :: "jsnum \<Rightarrow> jsnum" where
  "js_neg NaN = NaN"
| "js_neg (Fin a) = Fin (- a)"
| "js_neg PInf = NInf"
| "js_neg NInf = PInf"

fun js_add :: "jsnum \<Rightarrow> jsnum \<Rightarrow> jsnum" where
  "js_add NaN b = NaN"
| "js_add a NaN = NaN"
| "js_add (Fin a) (Fin b) = Fin (a + b)"
| "js_add (Fin a) PInf = PInf"
| "js_add (Fin a) NInf = NInf"
| "js_add PInf NInf = NaN"
| "js_add PInf b = PInf"
| "js_add NInf PInf = NaN"
| "js_add NInf b = NInf"

definition js_sub :: "jsnum \<Rightarrow> jsnum \<Rightarrow> jsnum" where
  "js_sub a b = js_add a (js_neg b)"

text \<open>The sign of a number that is not \<open>NaN\<close>: \<open>-1\<close>, \<open>0\<close> or \<open>1\<close>.\<close>

fun js_sign :: "jsnum \<Rightarrow> int" where
  "js_sign NaN = 0"
| "js_sign (Fin a) = (if a < 0 then -1 else if a = 0 then 0 else 1)"
| "js_sign PInf = 1"
| "js_sign NInf = -1"

definition js_inf :: "int \<Rightarrow> jsnum" where
  "js_inf s = (if s < 0 then NInf else PInf)"

fun js_mul :: "jsnum \<Rightarrow> jsnum \<Rightarrow> jsnum" where
  "js_mul NaN b = NaN"
| "js_mul a NaN = NaN"
| "js_mul (Fin a) (Fin b) = Fin (a * b)"
| "js_mul a b = (if js_sign a = 0 \<or> js_sign b = 0 then NaN else js_inf (js_sign a * js_sign b))"

text \<open>
  Division: a finite number over an infinity is zero, a non-zero number over zero is
  infinite, and \<open>0 / 0\<close> and \<open>\<infinity> / \<infinity>\<close> are \<open>NaN\<close>. Zero is taken as \<open>+0\<close>.
\<close>

fun js_div :: "jsnum \<Rightarrow> jsnum \<Rightarrow> jsnum" where
  "js_div NaN b = NaN"
| "js_div a NaN = NaN"
| "js_div (Fin a) (Fin b) =
     (if b = 0 then (if a = 0 then NaN else js_inf (js_sign (Fin a))) else Fin (a / b))"
| "js_div (Fin a) b = Fin 0"
| "js_div a (Fin b) = js_inf (js_sign a * (if b < 0 then -1 else 1))"
| "js_div a b = NaN"

text \<open>
  The remainder operator \<^verbatim>\<open>%\<close> truncates the quotient towards zero, so the result has
  the sign of the dividend: \<^verbatim>\<open>-1 % 360\<close> is \<^verbatim>\<open>-1\<close>.
\<close>

definition trunc :: "real \<Rightarrow> int" where
  "trunc x = (if 0 \<le> x then \<lfloor>x\<rfloor> else \<lceil>x\<rceil>)"

fun js_mod :: "jsnum \<Rightarrow> jsnum \<Rightarrow> jsnum" where
  "js_mod (Fin a) (Fin b) = (if b = 0 then NaN else Fin (a - b * of_int (trunc (a / b))))"
| "js_mod (Fin a) PInf = Fin a"
| "js_mod (Fin a) NInf = Fin a"
| "js_mod a b = NaN"

text \<open>Comparisons: every comparison with \<open>NaN\<close> is false.\<close>

fun js_lt :: "jsnum \<Rightarrow> jsnum \<Rightarrow> bool" where
  "js_lt NaN b = False"
| "js_lt a NaN = False"
| "js_lt (Fin a) (Fin b) = (a < b)"
| "js_lt (Fin a) PInf = True"
| "js_lt (Fin a) NInf = False"
| "js_lt PInf b = False"
| "js_lt NInf NInf = False"
| "js_lt NInf b = True"

definition js_gt :: "jsnum \<Rightarrow> jsnum \<Rightarrow> bool" where
  "js_gt a b = js_lt b a"

definition js_eq :: "jsnum \<Rightarrow> jsnum \<Rightarrow> bool" where
  "js_eq a b = (a \<noteq> NaN \<and> a = b)"

definition js_le :: "jsnum \<Rightarrow> jsnum \<Rightarrow> bool" where
  "js_le a b = (js_lt a b \<or> js_eq a b)"

definition js_ge :: "jsnum \<Rightarrow> jsnum \<Rightarrow> bool" where
  "js_ge a b = js_le b a"

text \<open>\<^verbatim>\<open>Math.min\<close>, \<^verbatim>\<open>Math.max\<close>, \<^verbatim>\<open>Math.abs\<close>.\<close>

definition Math_min :: "jsnum \<Rightarrow> jsnum \<Rightarrow> jsnum" where
  "Math_min a b = (if a = NaN \<or> b = NaN then NaN else if js_lt b a then b else a)"

definition Math_max :: "jsnum \<Rightarrow> jsnum \<Rightarrow> jsnum" where
  "Math_max a b = (if a = NaN \<or> b = NaN then NaN else if js_lt a b then b else a)"

fun Math_abs :: "jsnum \<Rightarrow> jsnum" where
  "Math_abs NaN = NaN"
| "Math_abs (Fin a) = Fin \<bar>a\<bar>"
| "Math_abs PInf = PInf"
| "Math_abs NInf = PInf"

text \<open>
  The transcendental functions. \<^verbatim>\<open>Math.tan\<close> at an odd multiple of \<open>\<pi>/2\<close>, where the
  real tangent has a pole, is the infinity of the sign of the sine (in doubles the
  value there is finite and of magnitude about \<open>1.6e16\<close>).
\<close>

definition Math_PI :: jsnum where
  "Math_PI = Fin pi"

fun Math_cos :: "jsnum \<Rightarrow> jsnum" where
  "Math_cos (Fin a) = Fin (cos a)"
| "Math_cos a = NaN"

fun Math_sin :: "jsnum \<Rightarrow> jsnum" where
  "Math_sin (Fin a) = Fin (sin a)"
| "Math_sin a = NaN"

fun Math_tan :: "jsnum \<Rightarrow> jsnum" where
  "Math_tan (Fin a) = (if cos a = 0 then (if 0 < sin a then PInf else NInf) else Fin (tan a))"
| "Math_tan a = NaN"

fun Math_log :: "jsnum \<Rightarrow> jsnum" where
  "Math_log NaN = NaN"
| "Math_log (Fin a) = (if a < 0 then NaN else if a = 0 then NInf else Fin (ln a))"
| "Math_log PInf = PInf"
| "Math_log NInf = NaN"

text \<open>\<^verbatim>\<open>Math.atan2(y, x)\<close>: the angle of the point \<open>(x, y)\<close>, in \<open>[-\<pi>, \<pi>]\<close>.\<close>

fun Math_atan2 :: "jsnum \<Rightarrow> jsnum \<Rightarrow> jsnum" where
  "Math_atan2 NaN x = NaN"
| "Math_atan2 y NaN = NaN"
| "Math_atan2 (Fin y) (Fin x) =
     Fin (if 0 < x then arctan (y / x)
          else if x < 0 then (if 0 \<le> y then arctan (y / x) + pi else arctan (y / x) - pi)
          else if 0 < y then pi / 2
          else if y < 0 then - pi / 2
          else 0)"
| "Math_atan2 (Fin y) PInf = Fin 0"
| "Math_atan2 (Fin y) NInf = Fin (if 0 \<le> y then pi else - pi)"
| "Math_atan2 PInf (Fin x) = Fin (pi / 2)"
| "Math_atan2 NInf (Fin x) = Fin (- pi / 2)"
| "Math_atan2 PInf PInf = Fin (pi / 4)"
| "Math_atan2 PInf NInf = Fin (3 * pi / 4)"
| "Math_atan2 NInf PInf = Fin (- pi / 4)"
| "Math_atan2 NInf NInf = Fin (- 3 * pi / 4)"

text \<open>
  The values a caller can pass where a number is expected. Strings and plain objects
  are left out; an array converts to a number through its string form, which is that
  of its only element, the empty string for no element, and never a number when it
  has two elements or more.
\<close>

datatype jsval = JUndefined | JNull | JBool bool | JNum jsnum | JArr "jsval list"

fun ToNumber :: "jsval \<Rightarrow> jsnum" where
  "ToNumber JUndefined = NaN"
| "ToNumber JNull = Fin 0"
| "ToNumber (JBool b) = (if b then Fin 1 else Fin 0)"
| "ToNumber (JNum n) = n"
| "ToNumber (JArr []) = Fin 0"
| "ToNumber (JArr [JUndefined]) = Fin 0"
| "ToNumber (JArr [JNull]) = Fin 0"
| "ToNumber (JArr [JBool b]) = NaN"
| "ToNumber (JArr [JNum n]) = n"
| "ToNumber (JArr [JArr xs]) = ToNumber (JArr xs)"
| "ToNumber (JArr (x # y # xs)) = NaN"

text \<open>The global \<^verbatim>\<open>isNaN\<close> converts its argument to a number first.\<close>

definition isNaN :: "jsval \<Rightarrow> bool" where
  "isNaN v = (ToNumber v = NaN)"

text \<open>
  The two errors the code can raise: the \<^verbatim>\<open>Error('Invalid LatLng object: ...')\<close> of the
  \<^verbatim>\<open>LatLng\<close> constructor, and the \<^verbatim>\<open>TypeError\<close> of the language when a property of
  \<^verbatim>\<open>undefined\<close> or \<^verbatim>\<open>null\<close> is read or written. A function that can raise returns
  \<open>error + 'a\<close>; \<open>Inl\<close> is the error. Nothing in the program catches an error.
\<close>

datatype error = InvalidLatLng | TypeError

definition ebind :: "error + 'a \<Rightarrow> ('a \<Rightarrow> error + 'b) \<Rightarrow> error + 'b" where
  "ebind m f = (case m of Inl e \<Rightarrow> Inl e | Inr x \<Rightarrow> f x)"

section \<open>LatLng\<close>

text \<open>
  \<^verbatim>\<open>function LatLng(lat, lng, alt)\<close>: throws when \<^verbatim>\<open>isNaN(lat) || isNaN(lng)\<close>, and
  stores \<^verbatim>\<open>+lat\<close>, \<^verbatim>\<open>+lng\<close> and, when \<^verbatim>\<open>alt !== undefined\<close>, \<^verbatim>\<open>+alt\<close>.
\<close>

record latlng =
  lat :: jsnum
  lng :: jsnum
  alt :: "jsnum option"

definition LatLng :: "jsval \<Rightarrow> jsval \<Rightarrow> jsval \<Rightarrow> error + latlng" where
  "LatLng la lo al =
     (if isNaN la \<or> isNaN lo then Inl InvalidLatLng
      else Inr \<lparr>lat = ToNumber la, lng = ToNumber lo,
                alt = (if al \<noteq> JUndefined then Some (ToNumber al) else None)\<rparr>)"

text \<open>Reading a property of a value that may be \<^verbatim>\<open>undefined\<close> or \<^verbatim>\<open>null\<close>.\<close>

definition deref :: "'a option \<Rightarrow> error + 'a" where
  "deref v = (case v of None \<Rightarrow> Inl TypeError | Some x \<Rightarrow> Inr x)"

section \<open>Rhumb lines\<close>

text \<open>
  \<^verbatim>\<open>Number.prototype.toRad\<close>, \<^verbatim>\<open>toDeg\<close> and \<^verbatim>\<open>toBrng\<close>, and \<^verbatim>\<open>parseFloat\<close> on a
  number (it reads back the number's own decimal form).
\<close>

definition toRad :: "jsnum \<Rightarrow> jsnum" where
  "toRad n = js_div (js_mul n Math_PI) (Fin 180)"

definition toDeg :: "jsnum \<Rightarrow> jsnum" where
  "toDeg n = js_div (js_mul n (Fin 180)) Math_PI"

definition toBrng :: "jsnum \<Rightarrow> jsnum" where
  "toBrng n = js_mod (js_add (toDeg n) (Fin 360)) (Fin 360)"

definition parseFloat :: "jsnum \<Rightarrow> jsnum" where
  "parseFloat n = n"

text \<open>
  \<^verbatim>\<open>L.LatLng.prototype.rhumbDestinationPoint = function (brng, dist)\<close>. The body is cut
  in two: \<open>rhumbLonSum\<close> is the sum \<^verbatim>\<open>lon1 + dLon + Math.PI\<close> that the function
  reduces modulo \<open>2\<pi>\<close>, and \<open>rhumbLat2\<close> is \<^verbatim>\<open>lat2\<close> after the check for going past
  the pole. The result \<open>None\<close> is the \<^verbatim>\<open>null\<close> that the function returns.
\<close>

definition rhumbLonSum :: "latlng \<Rightarrow> jsnum \<Rightarrow> jsnum \<Rightarrow> jsnum" where
  "rhumbLonSum this brng distance =
     (let d = js_div (parseFloat distance) (Fin 6371);
          lat1 = toRad (lat this);
          lon1 = toRad (lng this);
          brng = toRad brng;
          lat2 = js_add lat1 (js_mul d (Math_cos brng));
          dLat = js_sub lat2 lat1;
          dPhi = Math_log (js_div (Math_tan (js_add (js_div lat2 (Fin 2)) (js_div Math_PI (Fin 4))))
                                  (Math_tan (js_add (js_div lat1 (Fin 2)) (js_div Math_PI (Fin 4)))));
          q = (if js_gt (Math_abs dLat) (Fin (1 / 10 ^ 10)) then js_div dLat dPhi else Math_cos lat1);
          dLon = js_div (js_mul d (Math_sin brng)) q
      in js_add (js_add lon1 dLon) Math_PI)"

definition rhumbLat2 :: "latlng \<Rightarrow> jsnum \<Rightarrow> jsnum \<Rightarrow> jsnum" where
  "rhumbLat2 this brng distance =
     (let d = js_div (parseFloat distance) (Fin 6371);
          lat1 = toRad (lat this);
          brng = toRad brng;
          lat2 = js_add lat1 (js_mul d (Math_cos brng))
      in if js_gt (Math_abs lat2) (js_div Math_PI (Fin 2))
         then (if js_gt lat2 (Fin 0) then js_sub Math_PI lat2 else js_neg (js_sub Math_PI lat2))
         else lat2)"

definition rhumbDestinationPoint :: "latlng \<Rightarrow> jsnum \<Rightarrow> jsnum \<Rightarrow> error + latlng option" where
  "rhumbDestinationPoint this brng distance =
     (let lat2 = rhumbLat2 this brng distance;
          lon2 = js_sub (js_mod (rhumbLonSum this brng distance) (js_mul (Fin 2) Math_PI)) Math_PI
      in if lat2 = NaN \<or> lon2 = NaN then Inr None
         else ebind (LatLng (JNum (toDeg lat2)) (JNum (toDeg lon2)) JUndefined)
                (\<lambda>p. Inr (Some p)))"

text \<open>
  The last lines of the function by themselves, from \<^verbatim>\<open>var lon2 = ...\<close> on, for any
  value of \<^verbatim>\<open>lat2\<close> and any value \<open>lonSum\<close> of \<^verbatim>\<open>lon1 + dLon + Math.PI\<close>:
  \<open>rhumbDestinationPoint\<close> is \<open>rhumbPointOf\<close> of the two values that it has computed. The
  exact sine, cosine, tangent and logarithm above are not the ones of doubles: at
  latitude 90 the exact tangent is infinite and \<open>rhumbDestinationPoint\<close> is \<open>None\<close>, where a
  double is never \<open>\<pi> / 2\<close> and the code returns a point; and a sum that is exactly 0 may
  be a little below 0 in doubles. What is proved of \<open>rhumbPointOf\<close> for every \<open>lat2\<close>
  and \<open>lonSum\<close> holds of the values that the code computes too, whatever they are.
\<close>

definition rhumbPointOf :: "jsnum \<Rightarrow> jsnum \<Rightarrow> error + latlng option" where
  "rhumbPointOf lat2 lonSum =
     (let lon2 = js_sub (js_mod lonSum (js_mul (Fin 2) Math_PI)) Math_PI
      in if lat2 = NaN \<or> lon2 = NaN then Inr None
         else ebind (LatLng (JNum (toDeg lat2)) (JNum (toDeg lon2)) JUndefined)
                (\<lambda>p. Inr (Some p)))"

text \<open>\<^verbatim>\<open>L.LatLng.prototype.rhumbBearingTo = function (dest)\<close>.\<close>

definition rhumbBearingTo :: "latlng \<Rightarrow> latlng \<Rightarrow> jsnum" where
  "rhumbBearingTo this dest =
     (let dLon = toRad (js_sub (lng dest) (lng this));
          dPhi = Math_log (js_div (Math_tan (js_add (js_div (toRad (lat dest)) (Fin 2)) (js_div Math_PI (Fin 4))))
                                  (Math_tan (js_add (js_div (toRad (lat this)) (Fin 2)) (js_div Math_PI (Fin 4)))));
          dLon = (if js_gt (Math_abs dLon) Math_PI
                  then (if js_gt dLon (Fin 0) then js_neg (js_sub (js_mul (Fin 2) Math_PI) dLon)
                        else js_add (js_mul (Fin 2) Math_PI) dLon)
                  else dLon)
      in toBrng (Math_atan2 dLon dPhi))"

section \<open>LatLngBounds\<close>

text \<open>
  A \<^verbatim>\<open>LatLngBounds\<close> holds \<^verbatim>\<open>_southWest\<close> and \<^verbatim>\<open>_northEast\<close>, both \<^verbatim>\<open>undefined\<close> until
  the first \<^verbatim>\<open>extend\<close>. \<open>boundsExtend\<close> is the branch of the method \<^verbatim>\<open>extend\<close> for a \<^verbatim>\<open>LatLng\<close>
  argument, the only one the program takes: the first call copies the point into
  two new \<^verbatim>\<open>LatLng\<close> objects, every later call updates those two objects in place with
  \<^verbatim>\<open>Math.min\<close> and \<^verbatim>\<open>Math.max\<close>. \<open>extendBy\<close> is the call with an argument that
  may be \<^verbatim>\<open>undefined\<close>, which the method ignores.
\<close>

record bounds =
  southWest :: "latlng option"
  northEast :: "latlng option"

definition boundsExtend :: "bounds \<Rightarrow> latlng \<Rightarrow> error + bounds" where
  "boundsExtend this obj =
     (case (southWest this, northEast this) of
        (None, None) \<Rightarrow>
          ebind (LatLng (JNum (lat obj)) (JNum (lng obj)) JUndefined) (\<lambda>sw.
          ebind (LatLng (JNum (lat obj)) (JNum (lng obj)) JUndefined) (\<lambda>ne.
          Inr \<lparr>southWest = Some sw, northEast = Some ne\<rparr>))
      | (Some sw, Some ne) \<Rightarrow>
          Inr \<lparr>southWest = Some (sw\<lparr>lat := Math_min (lat obj) (lat sw),
                                      lng := Math_min (lng obj) (lng sw)\<rparr>),
               northEast = Some (ne\<lparr>lat := Math_max (lat obj) (lat ne),
                                      lng := Math_max (lng obj) (lng ne)\<rparr>)\<rparr>
      | _ \<Rightarrow> Inl TypeError)"

definition extendBy :: "bounds \<Rightarrow> latlng option \<Rightarrow> error + bounds" where
  "extendBy this obj = (case obj of None \<Rightarrow> Inr this | Some p \<Rightarrow> boundsExtend this p)"

text \<open>
  \<^verbatim>\<open>new L.latLngBounds([])\<close> is the empty bounds; \<^verbatim>\<open>new L.LatLngBounds(corner1, corner2)\<close>
  extends the empty bounds by the two corners, in this order.
\<close>

definition emptyBounds :: bounds where
  "emptyBounds = \<lparr>southWest = None, northEast = None\<rparr>"

definition LatLngBounds :: "latlng \<Rightarrow> latlng \<Rightarrow> error + bounds" where
  "LatLngBounds corner1 corner2 =
     ebind (boundsExtend emptyBounds corner1) (\<lambda>b. boundsExtend b corner2)"

definition getCenter :: "bounds \<Rightarrow> error + latlng" where
  "getCenter this =
     ebind (deref (southWest this)) (\<lambda>sw.
     ebind (deref (northEast this)) (\<lambda>ne.
     LatLng (JNum (js_div (js_add (lat sw) (lat ne)) (Fin 2)))
            (JNum (js_div (js_add (lng sw) (lng ne)) (Fin 2))) JUndefined))"

section \<open>RouteBoxer\<close>

text \<open>
  The fields of the object \<^verbatim>\<open>L.RouteBoxer\<close> (the source names end with an underscore):
  \<^verbatim>\<open>grid_\<close>, \<^verbatim>\<open>latGrid_\<close>, \<^verbatim>\<open>lngGrid_\<close>, \<^verbatim>\<open>boxesX_\<close> and \<^verbatim>\<open>boxesY_\<close>; the field \<^verbatim>\<open>R\<close> is
  never assigned. There is one such object and every call of \<^verbatim>\<open>box\<close> works on it, so
  each function below takes the object and returns it updated.

  \<^verbatim>\<open>grid_\<close> is \<^verbatim>\<open>null\<close> or an array of rows made by \<^verbatim>\<open>new Array(n)\<close>. The only value
  ever stored in a row is \<^verbatim>\<open>1\<close>, so a row is its \<^verbatim>\<open>length\<close> and the set of the keys that
  hold \<^verbatim>\<open>1\<close>. Storing at an index past the end makes the row longer; a negative key is
  a property of the row that leaves its length alone.
\<close>

record gridrow =
  rowLength :: nat
  marked :: "int set"

definition newRow :: "nat \<Rightarrow> gridrow" where
  "newRow n = \<lparr>rowLength = n, marked = {}\<rparr>"

definition setRow :: "gridrow \<Rightarrow> int \<Rightarrow> gridrow" where
  "setRow r y = \<lparr>rowLength = (if 0 \<le> y then max (rowLength r) (nat y + 1) else rowLength r),
                 marked = insert y (marked r)\<rparr>"

record routeboxer =
  grid :: "gridrow list option"
  latGrid :: "jsnum list"
  lngGrid :: "jsnum list"
  boxesX :: "bounds list"
  boxesY :: "bounds list"

definition R :: jsnum where
  "R = Fin 6371"

text \<open>Reading \<^verbatim>\<open>xs[i]\<close> in an array of numbers: \<^verbatim>\<open>undefined\<close> outside of the array.\<close>

definition js_nth :: "jsnum list \<Rightarrow> int \<Rightarrow> jsval" where
  "js_nth xs i = (if 0 \<le> i \<and> i < int (length xs) then JNum (xs ! nat i) else JUndefined)"

text \<open>
  A computation that may also run forever returns \<open>(error + 'a) option\<close>, and \<open>None\<close>
  is the run that does not end.
\<close>

definition obind :: "(error + 'a) option \<Rightarrow> ('a \<Rightarrow> (error + 'b) option) \<Rightarrow> (error + 'b) option" where
  "obind m f = (case m of None \<Rightarrow> None | Some (Inl e) \<Rightarrow> Some (Inl e) | Some (Inr x) \<Rightarrow> f x)"

subsection \<open>buildGrid_\<close>

text \<open>
  One grid line: \<^verbatim>\<open>routeBoundsCenter.rhumbDestinationPoint(brng, d).lat\<close> (or \<^verbatim>\<open>.lng\<close>),
  a \<^verbatim>\<open>TypeError\<close> when the point is \<^verbatim>\<open>null\<close>.
\<close>

definition gridLine :: "(latlng \<Rightarrow> jsnum) \<Rightarrow> latlng \<Rightarrow> jsnum \<Rightarrow> jsnum \<Rightarrow> error + jsnum" where
  "gridLine sel center brng d =
     ebind (rhumbDestinationPoint center brng d) (\<lambda>p. ebind (deref p) (\<lambda>q. Inr (sel q)))"

text \<open>
  The four loops of \<^verbatim>\<open>buildGrid_\<close>. \<open>gridPush\<close> is
  \<^verbatim>\<open>for (i = 2; g[i - 2] < bound; i++) g.push(line(brng, range * i))\<close> (north and east),
  \<open>gridUnshift\<close> is
  \<^verbatim>\<open>for (i = 1; g[1] > bound; i++) g.unshift(line(brng, range * i))\<close> (south and west).
  Nothing bounds the number of their steps.
\<close>

partial_function (option) gridPush ::
  "(latlng \<Rightarrow> jsnum) \<Rightarrow> latlng \<Rightarrow> jsnum \<Rightarrow> jsnum \<Rightarrow> jsnum \<Rightarrow> nat \<Rightarrow> jsnum list \<Rightarrow> (error + jsnum list) option" where
  "gridPush sel center brng rng bound i g =
     (if js_lt (ToNumber (js_nth g (int i - 2))) bound
      then (case gridLine sel center brng (js_mul rng (Fin (real i))) of
              Inl e \<Rightarrow> Some (Inl e)
            | Inr v \<Rightarrow> gridPush sel center brng rng bound (i + 1) (g @ [v]))
      else Some (Inr g))"

partial_function (option) gridUnshift ::
  "(latlng \<Rightarrow> jsnum) \<Rightarrow> latlng \<Rightarrow> jsnum \<Rightarrow> jsnum \<Rightarrow> jsnum \<Rightarrow> nat \<Rightarrow> jsnum list \<Rightarrow> (error + jsnum list) option" where
  "gridUnshift sel center brng rng bound i g =
     (if js_gt (ToNumber (js_nth g 1)) bound
      then (case gridLine sel center brng (js_mul rng (Fin (real i))) of
              Inl e \<Rightarrow> Some (Inl e)
            | Inr v \<Rightarrow> gridUnshift sel center brng rng bound (i + 1) (v # g))
      else Some (Inr g))"

fun extendAll :: "bounds \<Rightarrow> latlng list \<Rightarrow> error + bounds" where
  "extendAll b [] = Inr b"
| "extendAll b (v # vs) = ebind (boundsExtend b v) (\<lambda>b'. extendAll b' vs)"

definition buildGrid :: "routeboxer \<Rightarrow> latlng list \<Rightarrow> jsnum \<Rightarrow> (error + routeboxer) option" where
  "buildGrid st vertices rng =
     obind (Some (extendAll emptyBounds vertices)) (\<lambda>routeBounds.
     obind (Some (getCenter routeBounds)) (\<lambda>center.
     obind (Some (gridLine lat center (Fin 0) rng)) (\<lambda>n1.
     obind (Some (deref (northEast routeBounds))) (\<lambda>ne.
     obind (gridPush lat center (Fin 0) rng (lat ne) 2 (latGrid st @ [lat center, n1])) (\<lambda>lats.
     obind (Some (deref (southWest routeBounds))) (\<lambda>sw.
     obind (gridUnshift lat center (Fin 180) rng (lat sw) 1 lats) (\<lambda>lats.
     obind (Some (gridLine lng center (Fin 90) rng)) (\<lambda>e1.
     obind (gridPush lng center (Fin 90) rng (lng ne) 2 (lngGrid st @ [lng center, e1])) (\<lambda>lngs.
     obind (gridUnshift lng center (Fin 270) rng (lng sw) 1 lngs) (\<lambda>lngs.
     Some (Inr (st\<lparr>latGrid := lats, lngGrid := lngs,
                     grid := Some (replicate (length lngs) (newRow (length lats)))\<rparr>))))))))))))"

subsection \<open>Locating a point in the grid\<close>

text \<open>
  The three searches: \<open>scanCell\<close> is \<^verbatim>\<open>for (x = 0; g[x] < v; x++) {}\<close>, \<open>scanUp\<close> is
  \<^verbatim>\<open>for (x = hint; g[x + 1] < v; x++) {}\<close> and \<open>scanDown\<close> is
  \<^verbatim>\<open>for (x = hint; g[x] > v; x--) {}\<close>. Each ends at the latest where the array
  ends, since a comparison with \<^verbatim>\<open>undefined\<close> is false.
\<close>

lemma js_lt_nth: "js_lt (ToNumber (js_nth g x)) v \<Longrightarrow> 0 \<le> x \<and> x < int (length g)"
  by (auto simp: js_nth_def split: if_splits)

lemma js_gt_nth: "js_gt (ToNumber (js_nth g x)) v \<Longrightarrow> 0 \<le> x \<and> x < int (length g)"
  by (cases v) (auto simp: js_nth_def js_gt_def split: if_splits)

function scanCell :: "jsnum list \<Rightarrow> jsnum \<Rightarrow> int \<Rightarrow> int" where
  "scanCell g v x = (if js_lt (ToNumber (js_nth g x)) v then scanCell g v (x + 1) else x)"
  by pat_completeness auto
termination
  by (relation "measure (\<lambda>(g, v, x). nat (int (length g) - x))") (auto dest: js_lt_nth)

declare scanCell.simps [simp del]

function scanUp :: "jsnum list \<Rightarrow> jsnum \<Rightarrow> int \<Rightarrow> int" where
  "scanUp g v x = (if js_lt (ToNumber (js_nth g (x + 1))) v then scanUp g v (x + 1) else x)"
  by pat_completeness auto
termination
  by (relation "measure (\<lambda>(g, v, x). nat (int (length g) - x))") (auto dest: js_lt_nth)

declare scanUp.simps [simp del]

function scanDown :: "jsnum list \<Rightarrow> jsnum \<Rightarrow> int \<Rightarrow> int" where
  "scanDown g v x = (if js_gt (ToNumber (js_nth g x)) v then scanDown g v (x - 1) else x)"
  by pat_completeness auto
termination
  by (relation "measure (\<lambda>(g, v, x). nat (x + 1))") (auto dest: js_gt_nth)

declare scanDown.simps [simp del]

definition getCellCoords :: "routeboxer \<Rightarrow> latlng \<Rightarrow> int \<times> int" where
  "getCellCoords st latlng =
     (scanCell (lngGrid st) (lng latlng) 0 - 1, scanCell (latGrid st) (lat latlng) 0 - 1)"

definition getGridCoordsFromHint :: "routeboxer \<Rightarrow> latlng \<Rightarrow> latlng \<Rightarrow> int \<times> int \<Rightarrow> int \<times> int" where
  "getGridCoordsFromHint st latlng hintlatlng hint =
     (let x = (if js_gt (lng latlng) (lng hintlatlng)
               then scanUp (lngGrid st) (lng latlng) (fst hint)
               else scanDown (lngGrid st) (lng latlng) (fst hint));
          y = (if js_gt (lat latlng) (lat hintlatlng)
               then scanUp (latGrid st) (lat latlng) (snd hint)
               else scanDown (latGrid st) (lat latlng) (snd hint))
      in (x, y))"

subsection \<open>Marking cells\<close>

text \<open>
  \<^verbatim>\<open>this.grid_[x][y] = 1\<close>: a \<^verbatim>\<open>TypeError\<close> when \<^verbatim>\<open>grid_\<close> is \<^verbatim>\<open>null\<close> or has no row \<open>x\<close>.
\<close>

definition setCell :: "routeboxer \<Rightarrow> int \<Rightarrow> int \<Rightarrow> error + routeboxer" where
  "setCell st x y =
     ebind (deref (grid st)) (\<lambda>g.
     if 0 \<le> x \<and> x < int (length g)
     then Inr (st\<lparr>grid := Some (g[nat x := setRow (g ! nat x) y])\<rparr>)
     else Inl TypeError)"

definition markCell :: "routeboxer \<Rightarrow> int \<times> int \<Rightarrow> error + routeboxer" where
  "markCell st cell =
     (let x = fst cell; y = snd cell in
      ebind (setCell st (x - 1) (y - 1)) (\<lambda>st.
      ebind (setCell st x (y - 1)) (\<lambda>st.
      ebind (setCell st (x + 1) (y - 1)) (\<lambda>st.
      ebind (setCell st (x - 1) y) (\<lambda>st.
      ebind (setCell st x y) (\<lambda>st.
      ebind (setCell st (x + 1) y) (\<lambda>st.
      ebind (setCell st (x - 1) (y + 1)) (\<lambda>st.
      ebind (setCell st x (y + 1)) (\<lambda>st.
      setCell st (x + 1) (y + 1))))))))))"

text \<open>
  \<^verbatim>\<open>fillInGridSquares_\<close>: \<open>fillUp\<close> is \<^verbatim>\<open>for (x = startx; x <= endx; x++)\<close> and
  \<open>fillDown\<close> is \<^verbatim>\<open>for (x = startx; x >= endx; x--)\<close>, each marking \<^verbatim>\<open>[x, y]\<close>.
\<close>

function fillUp :: "routeboxer \<Rightarrow> int \<Rightarrow> int \<Rightarrow> int \<Rightarrow> error + routeboxer" where
  "fillUp st x endx y =
     (if x \<le> endx then ebind (markCell st (x, y)) (\<lambda>st'. fillUp st' (x + 1) endx y) else Inr st)"
  by pat_completeness auto
termination
  by (relation "measure (\<lambda>(st, x, endx, y). nat (endx + 1 - x))") auto

declare fillUp.simps [simp del]

function fillDown :: "routeboxer \<Rightarrow> int \<Rightarrow> int \<Rightarrow> int \<Rightarrow> error + routeboxer" where
  "fillDown st x endx y =
     (if x \<ge> endx then ebind (markCell st (x, y)) (\<lambda>st'. fillDown st' (x - 1) endx y) else Inr st)"
  by pat_completeness auto
termination
  by (relation "measure (\<lambda>(st, x, endx, y). nat (x + 1 - endx))") auto

declare fillDown.simps [simp del]

definition fillInGridSquares :: "routeboxer \<Rightarrow> int \<Rightarrow> int \<Rightarrow> int \<Rightarrow> error + routeboxer" where
  "fillInGridSquares st startx endx y =
     (if startx < endx then fillUp st startx endx y else fillDown st startx endx y)"

subsection \<open>The cells a segment crosses\<close>

text \<open>
  \<^verbatim>\<open>getGridIntersect_\<close>: the point where the segment from \<open>start\<close> meets a line of
  latitude; \<^verbatim>\<open>gridLineLat.toRad()\<close> is a \<^verbatim>\<open>TypeError\<close> when the line is \<^verbatim>\<open>undefined\<close>.
\<close>

definition getGridIntersect :: "latlng \<Rightarrow> jsnum \<Rightarrow> jsval \<Rightarrow> error + latlng option" where
  "getGridIntersect start brng gridLineLat =
     (case gridLineLat of
        JNum g \<Rightarrow>
          rhumbDestinationPoint start brng
            (js_mul R (js_div (js_sub (toRad g) (toRad (lat start))) (Math_cos (toRad brng))))
      | _ \<Rightarrow> Inl TypeError)"

text \<open>
  The two loops of \<^verbatim>\<open>getGridIntersects_\<close>, over the lines of latitude between the
  start cell and the end cell. Each returns the object, the last \<^verbatim>\<open>hintXY\<close> and the
  value of \<open>i\<close> after the loop. \<^verbatim>\<open>getGridCoordsFromHint_\<close> reads \<^verbatim>\<open>edgePoint.lng\<close>, a
  \<^verbatim>\<open>TypeError\<close> when the point is \<^verbatim>\<open>null\<close>.
\<close>

function intersectsUp ::
  "routeboxer \<Rightarrow> latlng \<Rightarrow> jsnum \<Rightarrow> latlng \<Rightarrow> int \<times> int \<Rightarrow> int \<Rightarrow> int
     \<Rightarrow> error + routeboxer \<times> (int \<times> int) \<times> int" where
  "intersectsUp st start brng hint hintXY i endY =
     (if i \<le> endY
      then ebind (getGridIntersect start brng (js_nth (latGrid st) i)) (\<lambda>edgePoint.
           ebind (deref edgePoint) (\<lambda>edge.
           ebind (fillInGridSquares st (fst hintXY)
                    (fst (getGridCoordsFromHint st edge hint hintXY)) (i - 1)) (\<lambda>st'.
           intersectsUp st' start brng edge (getGridCoordsFromHint st edge hint hintXY) (i + 1) endY)))
      else Inr (st, hintXY, i))"
  by pat_completeness auto
termination
  by (relation "measure (\<lambda>(st, start, brng, hint, hintXY, i, endY). nat (endY + 1 - i))") auto

declare intersectsUp.simps [simp del]

function intersectsDown ::
  "routeboxer \<Rightarrow> latlng \<Rightarrow> jsnum \<Rightarrow> latlng \<Rightarrow> int \<times> int \<Rightarrow> int \<Rightarrow> int
     \<Rightarrow> error + routeboxer \<times> (int \<times> int) \<times> int" where
  "intersectsDown st start brng hint hintXY i endY =
     (if i > endY
      then ebind (getGridIntersect start brng (js_nth (latGrid st) i)) (\<lambda>edgePoint.
           ebind (deref edgePoint) (\<lambda>edge.
           ebind (fillInGridSquares st (fst hintXY)
                    (fst (getGridCoordsFromHint st edge hint hintXY)) i) (\<lambda>st'.
           intersectsDown st' start brng edge (getGridCoordsFromHint st edge hint hintXY) (i - 1) endY)))
      else Inr (st, hintXY, i))"
  by pat_completeness auto
termination
  by (relation "measure (\<lambda>(st, start, brng, hint, hintXY, i, endY). nat (i - endY))") auto

declare intersectsDown.simps [simp del]

definition getGridIntersects ::
  "routeboxer \<Rightarrow> latlng \<Rightarrow> latlng \<Rightarrow> int \<times> int \<Rightarrow> int \<times> int \<Rightarrow> error + routeboxer" where
  "getGridIntersects st start endv startXY endXY =
     (let brng = rhumbBearingTo start endv in
      if js_gt (lat endv) (lat start)
      then ebind (intersectsUp st start brng start startXY (snd startXY + 1) (snd endXY))
             (\<lambda>(st', hintXY, i). fillInGridSquares st' (fst hintXY) (fst endXY) (i - 1))
      else ebind (intersectsDown st start brng start startXY (snd startXY) (snd endXY))
             (\<lambda>(st', hintXY, i). fillInGridSquares st' (fst hintXY) (fst endXY) i))"

subsection \<open>findIntersectingCells_\<close>

text \<open>
  \<open>walk\<close> is the loop over \<^verbatim>\<open>vertices[1..]\<close>, with the previous vertex and its cell.
  \<^verbatim>\<open>getCellCoords_(vertices[0])\<close> is a \<^verbatim>\<open>TypeError\<close> when there is no vertex.
\<close>

fun walk :: "routeboxer \<Rightarrow> latlng \<Rightarrow> int \<times> int \<Rightarrow> latlng list \<Rightarrow> error + routeboxer" where
  "walk st prev hintXY [] = Inr st"
| "walk st prev hintXY (v # vs) =
     (let gridXY = getGridCoordsFromHint st v prev hintXY in
      if fst gridXY = fst hintXY \<and> snd gridXY = snd hintXY
      then walk st v hintXY vs
      else if (\<bar>fst hintXY - fst gridXY\<bar> = 1 \<and> snd hintXY = snd gridXY) \<or>
              (fst hintXY = fst gridXY \<and> \<bar>snd hintXY - snd gridXY\<bar> = 1)
      then ebind (markCell st gridXY) (\<lambda>st'. walk st' v gridXY vs)
      else ebind (getGridIntersects st prev v hintXY gridXY) (\<lambda>st'. walk st' v gridXY vs))"

definition findIntersectingCells :: "routeboxer \<Rightarrow> latlng list \<Rightarrow> error + routeboxer" where
  "findIntersectingCells st vertices =
     (case vertices of
        [] \<Rightarrow> Inl TypeError
      | v0 # vs \<Rightarrow> ebind (markCell st (getCellCoords st v0)) (\<lambda>st'. walk st' v0 (getCellCoords st v0) vs))"

subsection \<open>mergeIntersectingCells_\<close>

text \<open>
  \<^verbatim>\<open>getCellBounds_\<close>: the bounds of a cell, from the grid lines at its two corners. A line
  that is \<^verbatim>\<open>undefined\<close> makes the \<^verbatim>\<open>LatLng\<close> constructor throw.
\<close>

definition getCellBounds :: "routeboxer \<Rightarrow> int \<times> int \<Rightarrow> error + bounds" where
  "getCellBounds st cell =
     ebind (LatLng (js_nth (latGrid st) (snd cell)) (js_nth (lngGrid st) (fst cell)) JUndefined) (\<lambda>sw.
     ebind (LatLng (js_nth (latGrid st) (snd cell + 1)) (js_nth (lngGrid st) (fst cell + 1)) JUndefined) (\<lambda>ne.
     LatLngBounds sw ne))"

text \<open>
  The tests of \<^verbatim>\<open>mergeBoxesX_\<close> and \<^verbatim>\<open>mergeBoxesY_\<close> on a box \<open>b\<close> of the list and the box
  to merge, with \<^verbatim>\<open>&&\<close> evaluated from the left.
\<close>

definition matchX :: "bounds \<Rightarrow> bounds \<Rightarrow> error + bool" where
  "matchX b box =
     ebind (deref (northEast b)) (\<lambda>bne.
     ebind (deref (southWest box)) (\<lambda>sw.
     if \<not> js_eq (lng bne) (lng sw) then Inr False
     else ebind (deref (southWest b)) (\<lambda>bsw.
          if \<not> js_eq (lat bsw) (lat sw) then Inr False
          else ebind (deref (northEast box)) (\<lambda>ne. Inr (js_eq (lat bne) (lat ne))))))"

definition matchY :: "bounds \<Rightarrow> bounds \<Rightarrow> error + bool" where
  "matchY b box =
     ebind (deref (northEast b)) (\<lambda>bne.
     ebind (deref (southWest box)) (\<lambda>sw.
     if \<not> js_eq (lat bne) (lat sw) then Inr False
     else ebind (deref (southWest b)) (\<lambda>bsw.
          if \<not> js_eq (lng bsw) (lng sw) then Inr False
          else ebind (deref (northEast box)) (\<lambda>ne. Inr (js_eq (lng bne) (lng ne))))))"

text \<open>
  The loop of \<^verbatim>\<open>mergeBoxesX_\<close> and \<^verbatim>\<open>mergeBoxesY_\<close>: the first box of the list that passes
  the test is extended in place by the north-east corner of \<open>box\<close>, and the function
  returns; when no box passes the test, \<open>box\<close> is pushed at the end of the list.
\<close>

fun mergeBoxes :: "(bounds \<Rightarrow> bounds \<Rightarrow> error + bool) \<Rightarrow> bounds list \<Rightarrow> bounds \<Rightarrow> error + bounds list" where
  "mergeBoxes test [] box = Inr [box]"
| "mergeBoxes test (b # bs) box =
     ebind (test b box) (\<lambda>found.
     if found then ebind (extendBy b (northEast box)) (\<lambda>b'. Inr (b' # bs))
     else ebind (mergeBoxes test bs box) (\<lambda>bs'. Inr (b # bs')))"

definition mergeBoxesX :: "routeboxer \<Rightarrow> bounds option \<Rightarrow> error + routeboxer" where
  "mergeBoxesX st box =
     (case box of
        None \<Rightarrow> Inr st
      | Some b \<Rightarrow> ebind (mergeBoxes matchX (boxesX st) b) (\<lambda>bs. Inr (st\<lparr>boxesX := bs\<rparr>)))"

definition mergeBoxesY :: "routeboxer \<Rightarrow> bounds option \<Rightarrow> error + routeboxer" where
  "mergeBoxesY st box =
     (case box of
        None \<Rightarrow> Inr st
      | Some b \<Rightarrow> ebind (mergeBoxes matchY (boxesY st) b) (\<lambda>bs. Inr (st\<lparr>boxesY := bs\<rparr>)))"

text \<open>Reading \<^verbatim>\<open>this.grid_[x][y]\<close> as a condition.\<close>

definition cellMarked :: "routeboxer \<Rightarrow> int \<Rightarrow> int \<Rightarrow> error + bool" where
  "cellMarked st x y =
     ebind (deref (grid st)) (\<lambda>g.
     if 0 \<le> x \<and> x < int (length g) then Inr (y \<in> marked (g ! nat x)) else Inl TypeError)"

text \<open>
  The body of the two inner loops, for one cell: a marked cell starts \<^verbatim>\<open>currentBox\<close> or
  extends it by the north-east corner of the cell's bounds, an unmarked cell hands
  \<^verbatim>\<open>currentBox\<close> to \<open>merge\<close> (\<^verbatim>\<open>mergeBoxesY_\<close> when the grid is traversed a row at a
  time, \<^verbatim>\<open>mergeBoxesX_\<close> when it is traversed a column at a time) and resets it.
\<close>

definition sweepCell ::
  "(routeboxer \<Rightarrow> bounds option \<Rightarrow> error + routeboxer) \<Rightarrow> routeboxer \<Rightarrow> bounds option \<Rightarrow> int \<times> int
     \<Rightarrow> error + routeboxer \<times> bounds option" where
  "sweepCell merge st currentBox cell =
     ebind (cellMarked st (fst cell) (snd cell)) (\<lambda>m.
     if m
     then ebind (getCellBounds st cell) (\<lambda>box.
          case currentBox of
            Some cb \<Rightarrow> ebind (extendBy cb (northEast box)) (\<lambda>cb'. Inr (st, Some cb'))
          | None \<Rightarrow> Inr (st, Some box))
     else ebind (merge st currentBox) (\<lambda>st'. Inr (st', None)))"

text \<open>
  The row sweep: \<^verbatim>\<open>for (y ...) { for (x ...) {...}; this.mergeBoxesY_(currentBox);
  currentBox = null }\<close>. \<open>sweepRow\<close> is the inner loop over the columns \<open>xs\<close> of row
  \<open>y\<close>, \<open>sweepRows\<close> the outer loop over the rows \<open>ys\<close>.
\<close>

fun sweepRow :: "routeboxer \<Rightarrow> bounds option \<Rightarrow> int \<Rightarrow> nat list \<Rightarrow> error + routeboxer \<times> bounds option" where
  "sweepRow st currentBox y [] = Inr (st, currentBox)"
| "sweepRow st currentBox y (x # xs) =
     ebind (sweepCell mergeBoxesY st currentBox (int x, y)) (\<lambda>(st', cb). sweepRow st' cb y xs)"

fun sweepRows :: "routeboxer \<Rightarrow> nat list \<Rightarrow> nat list \<Rightarrow> error + routeboxer" where
  "sweepRows st xs [] = Inr st"
| "sweepRows st xs (y # ys) =
     ebind (sweepRow st None (int y) xs) (\<lambda>(st', cb).
     ebind (mergeBoxesY st' cb) (\<lambda>st''. sweepRows st'' xs ys))"

text \<open>The column sweep, with \<open>x\<close> in the outer loop and \<^verbatim>\<open>mergeBoxesX_\<close>.\<close>

fun sweepCol :: "routeboxer \<Rightarrow> bounds option \<Rightarrow> int \<Rightarrow> nat list \<Rightarrow> error + routeboxer \<times> bounds option" where
  "sweepCol st currentBox x [] = Inr (st, currentBox)"
| "sweepCol st currentBox x (y # ys) =
     ebind (sweepCell mergeBoxesX st currentBox (x, int y)) (\<lambda>(st', cb). sweepCol st' cb x ys)"

fun sweepCols :: "routeboxer \<Rightarrow> nat list \<Rightarrow> nat list \<Rightarrow> error + routeboxer" where
  "sweepCols st ys [] = Inr st"
| "sweepCols st ys (x # xs) =
     ebind (sweepCol st None (int x) ys) (\<lambda>(st', cb).
     ebind (mergeBoxesX st' cb) (\<lambda>st''. sweepCols st'' ys xs))"

text \<open>
  \<^verbatim>\<open>mergeIntersectingCells_\<close>: the row sweep, then the column sweep. Both loops run
  \<open>x\<close> below \<^verbatim>\<open>this.grid_.length\<close> and \<open>y\<close> below \<^verbatim>\<open>this.grid_[0].length\<close>; reading the
  latter is a \<^verbatim>\<open>TypeError\<close> when the grid is \<^verbatim>\<open>null\<close> or has no row.
\<close>

definition mergeIntersectingCells :: "routeboxer \<Rightarrow> error + routeboxer" where
  "mergeIntersectingCells st =
     ebind (deref (grid st)) (\<lambda>g.
     ebind (case g of [] \<Rightarrow> Inl TypeError | r # rs \<Rightarrow> Inr (rowLength r)) (\<lambda>n.
     ebind (sweepRows st [0..<length g] [0..<n]) (\<lambda>st'.
     sweepCols st' [0..<n] [0..<length g])))"

subsection \<open>box\<close>

text \<open>
  \<^verbatim>\<open>box: function (path, range)\<close>, for a path that is an array of \<^verbatim>\<open>LatLng\<close>: it resets
  the five fields, builds the grid, marks the cells, merges them and returns
  \<^verbatim>\<open>this.boxesX_.length <= this.boxesY_.length ? this.boxesX_ : this.boxesY_\<close>.
\<close>

definition box :: "routeboxer \<Rightarrow> latlng list \<Rightarrow> jsnum \<Rightarrow> (error + bounds list \<times> routeboxer) option" where
  "box st path rng =
     obind (buildGrid (st\<lparr>grid := None, latGrid := [], lngGrid := [], boxesX := [], boxesY := []\<rparr>)
              path rng) (\<lambda>st1.
     Some (ebind (findIntersectingCells st1 path) (\<lambda>st2.
           ebind (mergeIntersectingCells st2) (\<lambda>st3.
           Inr (if length (boxesX st3) \<le> length (boxesY st3) then boxesX st3 else boxesY st3, st3)))))"

section \<open>mkBox\<close>

text \<open>
  \<^verbatim>\<open>pt[0]\<close> and \<^verbatim>\<open>pt[1]\<close> for an element \<open>pt\<close> of \<^verbatim>\<open>pts\<close>: a \<^verbatim>\<open>TypeError\<close> on \<^verbatim>\<open>undefined\<close> and
  \<^verbatim>\<open>null\<close>, \<^verbatim>\<open>undefined\<close> on a number, on a boolean and past the end of an array.
\<close>

definition js_index :: "jsval \<Rightarrow> nat \<Rightarrow> error + jsval" where
  "js_index v i =
     (case v of
        JUndefined \<Rightarrow> Inl TypeError
      | JNull \<Rightarrow> Inl TypeError
      | JArr xs \<Rightarrow> Inr (if i < length xs then xs ! i else JUndefined)
      | _ \<Rightarrow> Inr JUndefined)"

text \<open>\<^verbatim>\<open>pts.map((pt) => new LatLng(pt[0], pt[1]))\<close>.\<close>

fun toLatLngs :: "jsval list \<Rightarrow> error + latlng list" where
  "toLatLngs [] = Inr []"
| "toLatLngs (pt # pts) =
     ebind (js_index pt 0) (\<lambda>la.
     ebind (js_index pt 1) (\<lambda>lo.
     ebind (LatLng la lo JUndefined) (\<lambda>p.
     ebind (toLatLngs pts) (\<lambda>ps. Inr (p # ps)))))"

text \<open>
  \<^verbatim>\<open>bounds.map((box) => [[_southWest.lat, _southWest.lng], [_northEast.lat, _northEast.lng]])\<close>.
\<close>

type_synonym boxpair = "(jsnum \<times> jsnum) \<times> (jsnum \<times> jsnum)"

fun toPairs :: "bounds list \<Rightarrow> error + boxpair list" where
  "toPairs [] = Inr []"
| "toPairs (b # bs) =
     ebind (deref (southWest b)) (\<lambda>sw.
     ebind (deref (northEast b)) (\<lambda>ne.
     ebind (toPairs bs) (\<lambda>ps. Inr (((lat sw, lng sw), (lat ne, lng ne)) # ps))))"

text \<open>
  \<^verbatim>\<open>function mkBox(pts = [], dis = 20)\<close>. The condition
  \<^verbatim>\<open>pts && pts.length && pts.length >= 2\<close> holds for an array of two elements or more, and
  for no other value of \<open>jsval\<close>: \<^verbatim>\<open>undefined\<close> is replaced by the default \<^verbatim>\<open>[]\<close>, \<^verbatim>\<open>null\<close> is
  falsy, and a number and a boolean have no \<^verbatim>\<open>length\<close>. \<open>dis\<close> is the second argument as
  the body sees it, \<open>Fin 20\<close> when the caller gives none. \<open>boxPairs\<close> is the body of the
  \<^verbatim>\<open>if\<close>: the points are converted, \<^verbatim>\<open>RouteBoxer.box(lls, dis)\<close> runs, and its bounds are
  converted to pairs.
\<close>

definition boxPairs :: "routeboxer \<Rightarrow> jsval list \<Rightarrow> jsnum \<Rightarrow> (error + boxpair list \<times> routeboxer) option" where
  "boxPairs st ps rng =
     obind (Some (toLatLngs ps)) (\<lambda>lls.
     obind (box st lls rng) (\<lambda>(bounds, st').
     Some (ebind (toPairs bounds) (\<lambda>boxes. Inr (boxes, st')))))"

definition mkBox :: "routeboxer \<Rightarrow> jsval \<Rightarrow> jsnum \<Rightarrow> (error + boxpair list \<times> routeboxer) option" where
  "mkBox st pts dis =
     (case pts of
        JArr ps \<Rightarrow> if length ps \<ge> 2 then boxPairs st ps dis else Some (Inr ([], st))
      | _ \<Rightarrow> Some (Inr ([], st)))"

text \<open>The object \<^verbatim>\<open>L.RouteBoxer\<close> as its literal creates it.\<close>

definition initialRouteBoxer :: routeboxer where
  "initialRouteBoxer = \<lparr>grid = None, latGrid = [], lngGrid = [], boxesX = [], boxesY = []\<rparr>"

text \<open>What a caller sees of a run: the error or the boxes, or \<open>None\<close> for no answer.\<close>

definition outcome :: "(error + 'a \<times> routeboxer) option \<Rightarrow> (error + 'a) option" where
  "outcome r = map_option (map_sum id fst) r"

section \<open>mkBox on a store of arrays\<close>

text \<open>
  The sections above pass arrays as values. To say what a call does to the arrays of
  its caller, this section gives \<^verbatim>\<open>mkBox\<close> once more, on a store: the list of the arrays
  that exist, each array the list of its elements, and \<open>HRef a\<close> the reference to the
  array at index \<open>a\<close> of the store. The objects of the classes \<^verbatim>\<open>LatLng\<close> and
  \<^verbatim>\<open>LatLngBounds\<close> and the \<^verbatim>\<open>RouteBoxer\<close> object are not in the store, they stay the values
  of the sections above: a \<^verbatim>\<open>LatLng\<close> holds the numbers \<^verbatim>\<open>+lat\<close> and \<^verbatim>\<open>+lng\<close> and no reference,
  \<^verbatim>\<open>box\<close> is given the array \<^verbatim>\<open>lls\<close> of the \<^verbatim>\<open>LatLng\<close> objects that \<^verbatim>\<open>mkBox\<close> has made, and it
  assigns \<^verbatim>\<open>null\<close> or a new array to each field of the \<^verbatim>\<open>RouteBoxer\<close> object before it
  uses it.
\<close>

datatype hval = HUndefined | HNull | HBool bool | HNum jsnum | HRef nat

type_synonym store = "hval list list"

text \<open>
  A new array is added at the end of the store, so that the references to the arrays
  that exist keep their meaning. \<open>writeElem\<close> is the assignment \<^verbatim>\<open>A[i] = v\<close> for an index
  \<open>i\<close> below the length of \<open>A\<close>, and \<open>elemsOf\<close> reads the elements of an array.
\<close>

definition allocArray :: "store \<Rightarrow> hval list \<Rightarrow> store \<times> nat" where
  "allocArray h xs = (h @ [xs], length h)"

definition writeElem :: "store \<Rightarrow> nat \<Rightarrow> nat \<Rightarrow> hval \<Rightarrow> store" where
  "writeElem h a i v = h[a := (h ! a)[i := v]]"

definition elemsOf :: "store \<Rightarrow> nat \<Rightarrow> hval list" where
  "elemsOf h a = (if a < length h then h ! a else [])"

text \<open>
  The value that \<^verbatim>\<open>isNaN\<close> and the unary \<^verbatim>\<open>+\<close> see where they are given \<open>v\<close>: a reference is
  read as the array of the values of its elements. \<open>n\<close> bounds the number of references
  followed one inside the other; \<open>toLatLngsH\<close> reads with the size of the store, which
  is enough for every chain of references that does not come back to one of its arrays.
\<close>

fun loadv :: "nat \<Rightarrow> store \<Rightarrow> hval \<Rightarrow> jsval" where
  "loadv n h HUndefined = JUndefined"
| "loadv n h HNull = JNull"
| "loadv n h (HBool b) = JBool b"
| "loadv n h (HNum x) = JNum x"
| "loadv 0 h (HRef a) = JArr []"
| "loadv (Suc n) h (HRef a) = JArr (map (loadv n h) (elemsOf h a))"

text \<open>
  \<^verbatim>\<open>pt[0]\<close> and \<^verbatim>\<open>pt[1]\<close>, and \<^verbatim>\<open>pts.map((pt) => new LatLng(pt[0], pt[1]))\<close> on the elements of
  \<^verbatim>\<open>pts\<close>, as \<open>js_index\<close> and \<open>toLatLngs\<close> above.
\<close>

definition indexH :: "store \<Rightarrow> hval \<Rightarrow> nat \<Rightarrow> error + hval" where
  "indexH h v i =
     (case v of
        HUndefined \<Rightarrow> Inl TypeError
      | HNull \<Rightarrow> Inl TypeError
      | HRef a \<Rightarrow> Inr (if i < length (elemsOf h a) then elemsOf h a ! i else HUndefined)
      | _ \<Rightarrow> Inr HUndefined)"

fun toLatLngsH :: "store \<Rightarrow> hval list \<Rightarrow> error + latlng list" where
  "toLatLngsH h [] = Inr []"
| "toLatLngsH h (pt # pts) =
     ebind (indexH h pt 0) (\<lambda>la.
     ebind (indexH h pt 1) (\<lambda>lo.
     ebind (LatLng (loadv (length h) h la) (loadv (length h) h lo) JUndefined) (\<lambda>p.
     ebind (toLatLngsH h pts) (\<lambda>ps. Inr (p # ps)))))"

text \<open>
  \<^verbatim>\<open>bounds.map((box) => [[_southWest.lat, _southWest.lng], [_northEast.lat, _northEast.lng]])\<close>:
  \<open>pairH\<close> is the function given to \<^verbatim>\<open>map\<close>, which makes three arrays, and \<open>mapBoxes\<close> is
  the loop of \<^verbatim>\<open>map\<close>, which writes the result for the box of index \<open>k\<close> at index \<open>k\<close> of
  the array \<open>A\<close> that \<^verbatim>\<open>map\<close> has made before the loop.
\<close>

definition pairH :: "store \<Rightarrow> bounds \<Rightarrow> error + store \<times> hval" where
  "pairH h b =
     ebind (deref (southWest b)) (\<lambda>sw.
     let (h1, a1) = allocArray h [HNum (lat sw), HNum (lng sw)] in
     ebind (deref (northEast b)) (\<lambda>ne.
     let (h2, a2) = allocArray h1 [HNum (lat ne), HNum (lng ne)];
         (h3, a3) = allocArray h2 [HRef a1, HRef a2]
     in Inr (h3, HRef a3)))"

fun mapBoxes :: "store \<Rightarrow> nat \<Rightarrow> nat \<Rightarrow> bounds list \<Rightarrow> error + store" where
  "mapBoxes h A k [] = Inr h"
| "mapBoxes h A k (b # bs) =
     ebind (pairH h b) (\<lambda>(h', v). mapBoxes (writeElem h' A k v) A (Suc k) bs)"

text \<open>
  \<^verbatim>\<open>mkBox\<close> on the store \<open>h\<close>: the default \<^verbatim>\<open>[]\<close> of \<^verbatim>\<open>pts\<close> and the \<^verbatim>\<open>[]\<close> of \<^verbatim>\<open>let boxes = []\<close> are
  new arrays; the condition \<^verbatim>\<open>pts && pts.length && pts.length >= 2\<close> holds for a reference
  to an array of two elements or more; the result is the reference to the array of the
  boxes, with the store and the \<^verbatim>\<open>RouteBoxer\<close> object as the call leaves them. A call that
  raises gives the error alone.
\<close>

definition mkBoxH :: "store \<Rightarrow> routeboxer \<Rightarrow> hval \<Rightarrow> jsnum \<Rightarrow> (error + hval \<times> store \<times> routeboxer) option" where
  "mkBoxH h st pts dis =
     (let (h0, pts') = (case pts of
                          HUndefined \<Rightarrow> (let (h', a) = allocArray h [] in (h', HRef a))
                        | _ \<Rightarrow> (h, pts));
          (h1, boxes) = allocArray h0 []
      in case pts' of
           HRef a \<Rightarrow>
             if 2 \<le> length (elemsOf h1 a)
             then obind (Some (toLatLngsH h1 (elemsOf h1 a))) (\<lambda>lls.
                  obind (box st lls dis) (\<lambda>(bounds, st').
                  let (h2, A) = allocArray h1 (replicate (length bounds) HUndefined) in
                  Some (ebind (mapBoxes h2 A 0 bounds) (\<lambda>h3. Inr (HRef A, h3, st')))))
             else Some (Inr (HRef boxes, h1, st))
         | _ \<Rightarrow> Some (Inr (HRef boxes, h1, st)))"


section \<open>Notions of the specification\<close>

text \<open>
  The specification says which latitude and longitude the \<^verbatim>\<open>LatLng\<close> constructor refuses:
  the non-numeric ones. A value is numeric when it is a Number other than \<^verbatim>\<open>NaN\<close>.
\<close>

definition numeric :: "jsval \<Rightarrow> bool" where
  "numeric v = (case v of JNum n \<Rightarrow> n \<noteq> NaN | _ \<Rightarrow> False)"

text \<open>
  The interval \<open>(-180, 180]\<close>, in degrees, that the specification gives for the longitude
  of a rhumb destination.
\<close>

definition lngNormalized :: "latlng \<Rightarrow> bool" where
  "lngNormalized p = (js_lt (Fin (- 180)) (lng p) \<and> js_le (lng p) (Fin 180))"


text \<open>
  The invariant of the specification for a box \<open>((swLat, swLng), (neLat, neLng))\<close> of the
  result: the south-west corner is not above and not right of the north-east corner.
\<close>

definition boxOrdered :: "boxpair \<Rightarrow> bool" where
  "boxOrdered b = (js_le (fst (fst b)) (fst (snd b)) \<and> js_le (snd (fst b)) (snd (snd b)))"

text \<open>
  The two cover lists of the specification, for an object whose grid is marked. The
  row-first list is what the row sweep alone builds in an empty list: it merges the
  marked cells of each row, then merges vertically. The column-first list is what the
  column sweep alone builds: it merges the marked cells of each column, then merges
  horizontally.
\<close>

definition rowFirstCover :: "routeboxer \<Rightarrow> error + bounds list" where
  "rowFirstCover st =
     ebind (deref (grid st)) (\<lambda>g.
     ebind (case g of [] \<Rightarrow> Inl TypeError | r # rs \<Rightarrow> Inr (rowLength r)) (\<lambda>n.
     ebind (sweepRows (st\<lparr>boxesX := [], boxesY := []\<rparr>) [0..<length g] [0..<n]) (\<lambda>st'.
     Inr (boxesY st'))))"

definition columnFirstCover :: "routeboxer \<Rightarrow> error + bounds list" where
  "columnFirstCover st =
     ebind (deref (grid st)) (\<lambda>g.
     ebind (case g of [] \<Rightarrow> Inl TypeError | r # rs \<Rightarrow> Inr (rowLength r)) (\<lambda>n.
     ebind (sweepCols (st\<lparr>boxesX := [], boxesY := []\<rparr>) [0..<n] [0..<length g]) (\<lambda>st'.
     Inr (boxesX st'))))"


section \<open>Invariants of the computation\<close>

text \<open>
  \<open>okBounds\<close>: both corners are set, no coordinate is \<^verbatim>\<open>NaN\<close>, and the south-west corner
  is below and left of the north-east corner (or equal to it). \<open>okBoxes\<close> says so of every
  box of the two lists of the object, \<open>okCurrent\<close> of \<^verbatim>\<open>currentBox\<close> when it is not \<^verbatim>\<open>null\<close>.
\<close>

definition okBounds :: "bounds \<Rightarrow> bool" where
  "okBounds b =
     (case (southWest b, northEast b) of
        (Some sw, Some ne) \<Rightarrow>
          lat sw \<noteq> NaN \<and> lng sw \<noteq> NaN \<and> lat ne \<noteq> NaN \<and> lng ne \<noteq> NaN \<and>
          js_le (lat sw) (lat ne) \<and> js_le (lng sw) (lng ne)
      | _ \<Rightarrow> False)"

definition okBoxes :: "routeboxer \<Rightarrow> bool" where
  "okBoxes st = (list_all okBounds (boxesX st) \<and> list_all okBounds (boxesY st))"

definition okCurrent :: "bounds option \<Rightarrow> bool" where
  "okCurrent cb = (case cb of None \<Rightarrow> True | Some b \<Rightarrow> okBounds b)"

text \<open>
  \<open>grows st st'\<close>: from \<open>st\<close> to \<open>st'\<close> only the grid has changed, it has kept its rows, and
  no row has lost a mark or become shorter.
\<close>

definition grows :: "routeboxer \<Rightarrow> routeboxer \<Rightarrow> bool" where
  "grows st st' =
     (latGrid st' = latGrid st \<and> lngGrid st' = lngGrid st \<and>
      boxesX st' = boxesX st \<and> boxesY st' = boxesY st \<and>
      (case (grid st, grid st') of
         (Some g, Some g') \<Rightarrow>
           length g' = length g \<and>
           (\<forall>i < length g. marked (g ! i) \<subseteq> marked (g' ! i) \<and> rowLength (g ! i) \<le> rowLength (g' ! i))
       | (None, None) \<Rightarrow> True
       | _ \<Rightarrow> False))"


section \<open>A route around a corner\<close>

text \<open>
  The data of one run that can be followed by hand: the route \<open>(-a, -a)\<close>, \<open>(-a, a)\<close>,
  \<open>(a, a)\<close> around the point \<open>(0, 0)\<close>, with a range \<open>r\<close> whose grid step is more than
  \<open>a\<close>. \<open>gridStep r\<close> is the angle in degrees of a rhumb line of length \<open>r\<close> from the
  equator to the north, or along the equator; \<open>origin\<close> is the centre of the route's
  bounds; \<open>lines5 s\<close> are the five grid lines of either axis, \<open>s\<close> apart; \<open>corner\<close> builds a
  \<^verbatim>\<open>LatLng\<close> of two finite numbers and \<open>cornerRoute a\<close> is the argument \<^verbatim>\<open>pts\<close> for this route.
\<close>

definition gridStep :: "real \<Rightarrow> real" where
  "gridStep t = t / 6371 * 180 / pi"

definition origin :: latlng where
  "origin = \<lparr>lat = Fin 0, lng = Fin 0, alt = None\<rparr>"

definition lines5 :: "real \<Rightarrow> jsnum list" where
  "lines5 s = [Fin (- (2 * s)), Fin (- s), Fin 0, Fin s, Fin (2 * s)]"

definition corner :: "real \<Rightarrow> real \<Rightarrow> latlng" where
  "corner x y = \<lparr>lat = Fin x, lng = Fin y, alt = None\<rparr>"

definition cornerRoute :: "real \<Rightarrow> jsval list" where
  "cornerRoute a =
     [JArr [JNum (Fin (- a)), JNum (Fin (- a))],
      JArr [JNum (Fin (- a)), JNum (Fin a)],
      JArr [JNum (Fin a), JNum (Fin a)]]"

text \<open>
  The states of the \<^verbatim>\<open>RouteBoxer\<close> in this run: \<open>emptyGrid5\<close> after \<^verbatim>\<open>buildGrid_\<close>,
  \<open>markedGrid5\<close> after \<^verbatim>\<open>findIntersectingCells_\<close>, where the route goes through the cells
  \<open>(1, 1)\<close>, \<open>(2, 1)\<close> and \<open>(2, 2)\<close> and each of them marks its eight neighbours, and
  \<open>st5 s X Y\<close> during the sweeps, with the two lists of boxes as they grow.
\<close>

definition emptyGrid5 :: "real \<Rightarrow> routeboxer" where
  "emptyGrid5 s = \<lparr>grid = Some [newRow 5, newRow 5, newRow 5, newRow 5, newRow 5],
                   latGrid = lines5 s, lngGrid = lines5 s, boxesX = [], boxesY = []\<rparr>"

definition row5 :: "int set \<Rightarrow> gridrow" where
  "row5 S = \<lparr>rowLength = 5, marked = S\<rparr>"

definition markedGrid5 :: "real \<Rightarrow> routeboxer" where
  "markedGrid5 s = \<lparr>grid = Some [row5 {0, 1, 2}, row5 {0, 1, 2, 3}, row5 {0, 1, 2, 3}, row5 {0, 1, 2, 3}, row5 {}],
                    latGrid = lines5 s, lngGrid = lines5 s, boxesX = [], boxesY = []\<rparr>"

definition st5 :: "real \<Rightarrow> bounds list \<Rightarrow> bounds list \<Rightarrow> routeboxer" where
  "st5 s X Y = markedGrid5 s\<lparr>boxesX := X, boxesY := Y\<rparr>"

text \<open>
  \<open>rect\<close> is the \<^verbatim>\<open>LatLngBounds\<close> with the given south-west and north-east coordinates and
  \<open>lineAt s k\<close> the grid line of index \<open>k\<close>. \<open>rows5\<close> is the list that the row sweep leaves
  in \<^verbatim>\<open>boxesY_\<close>, \<open>cols5\<close> the one that the column sweep leaves in \<^verbatim>\<open>boxesX_\<close>, and \<open>pairs5\<close>
  is \<open>cols5\<close> as \<^verbatim>\<open>mkBox\<close> returns it.
\<close>

definition rect :: "real \<Rightarrow> real \<Rightarrow> real \<Rightarrow> real \<Rightarrow> bounds" where
  "rect swLat swLng neLat neLng = \<lparr>southWest = Some (corner swLat swLng), northEast = Some (corner neLat neLng)\<rparr>"

definition lineAt :: "real \<Rightarrow> int \<Rightarrow> real" where
  "lineAt s k = (real_of_int k - 2) * s"

definition rows5 :: "real \<Rightarrow> bounds list" where
  "rows5 s = [rect (- (2 * s)) (- (2 * s)) s (2 * s), rect s (- s) (2 * s) (2 * s)]"

definition cols5 :: "real \<Rightarrow> bounds list" where
  "cols5 s = [rect (- (2 * s)) (- (2 * s)) s (- s), rect (- (2 * s)) (- s) (2 * s) (2 * s)]"

definition pairs5 :: "real \<Rightarrow> boxpair list" where
  "pairs5 s = [((Fin (- (2 * s)), Fin (- (2 * s))), (Fin s, Fin (- s))),
              ((Fin (- (2 * s)), Fin (- s)), (Fin (2 * s), Fin (2 * s)))]"


text \<open>
  The same route in a store: the three pairs at the indices 0, 1 and 2, the array of
  the points at index 3. \<open>cornerBoxes s\<close> are the arrays that the call adds to it.
\<close>

definition cornerStore :: "real \<Rightarrow> store" where
  "cornerStore a =
     [[HNum (Fin (- a)), HNum (Fin (- a))],
      [HNum (Fin (- a)), HNum (Fin a)],
      [HNum (Fin a), HNum (Fin a)],
      [HRef 0, HRef 1, HRef 2]]"

definition cornerBoxes :: "real \<Rightarrow> store" where
  "cornerBoxes s =
     [[],
      [HRef 8, HRef 11],
      [HNum (Fin (- (2 * s))), HNum (Fin (- (2 * s)))],
      [HNum (Fin s), HNum (Fin (- s))],
      [HRef 6, HRef 7],
      [HNum (Fin (- (2 * s))), HNum (Fin (- s))],
      [HNum (Fin (2 * s)), HNum (Fin (2 * s))],
      [HRef 9, HRef 10]]"


section \<open>The entry point on short inputs and on repeated calls\<close>

text \<open>
  C4: for every array \<open>pts\<close> of fewer than two elements, the empty array included,
  \<^verbatim>\<open>mkBox\<close> returns the empty array of boxes and raises no error; the \<^verbatim>\<open>RouteBoxer\<close> object
  is not touched.
\<close>

theorem mkBox_fewer_than_two:
  "length ps < 2 \<Longrightarrow> mkBox st (JArr ps) dis = Some (Inr ([], st))"
  by (simp add: mkBox_def)

theorem mkBox_fewer_than_two_witness:
  "length [JNull] < 2 \<and>
   mkBox initialRouteBoxer (JArr [JNull]) (Fin 5) = Some (Inr ([], initialRouteBoxer))"
proof -
  have short: "length [JNull] < 2" by simp
  from mkBox_fewer_than_two [OF short] short show ?thesis by blast
qed

lemma reset_initial:
  "st\<lparr>grid := None, latGrid := [], lngGrid := [], boxesX := [], boxesY := []\<rparr> = initialRouteBoxer"
  by (simp add: initialRouteBoxer_def)

lemma box_state_indep: "box st path rng = box st' path rng"
  by (simp add: box_def reset_initial)

text \<open>
  C8: \<^verbatim>\<open>mkBox\<close> is deterministic across calls. The only state that outlives a call is the
  \<^verbatim>\<open>RouteBoxer\<close> object, which any number of earlier calls may have left in any state
  \<open>st\<close>, \<open>st'\<close>; what the caller gets for the same points and distance (the boxes, the
  error, or no answer) is the same from every such state.
\<close>

theorem mkBox_deterministic:
  "outcome (mkBox st pts dis) = outcome (mkBox st' pts dis)"
  by (cases pts) (simp_all add: mkBox_def outcome_def boxPairs_def box_state_indep [of st _ _ st'])

section \<open>The LatLng constructor\<close>

lemma toLatLngs_mkBox:
  "2 \<le> length ps \<Longrightarrow> toLatLngs ps = Inl e \<Longrightarrow> mkBox st (JArr ps) dis = Some (Inl e)"
  by (simp add: mkBox_def boxPairs_def obind_def)

text \<open>
  C6, as the code has it: the constructor raises exactly when \<^verbatim>\<open>isNaN\<close> holds of the
  latitude or of the longitude, that is when one of them converts to \<^verbatim>\<open>NaN\<close>. Numeric
  coordinates are never refused, and neither is a value that converts to a number
  (\<^verbatim>\<open>null\<close>, a boolean, an array of one number). Nothing catches the error: when it is
  raised for a point of \<^verbatim>\<open>pts\<close>, it is what \<^verbatim>\<open>mkBox\<close> gives its caller.
\<close>

theorem LatLng_raises_iff_isNaN:
  "((\<exists>e. LatLng la lo al = Inl e) = (isNaN la \<or> isNaN lo)) \<and>
   (numeric la \<and> numeric lo \<longrightarrow> (\<exists>p. LatLng la lo al = Inr p)) \<and>
   (2 \<le> length ps \<and> toLatLngs ps = Inl e \<longrightarrow> mkBox st (JArr ps) dis = Some (Inl e))"
  by (auto simp: LatLng_def isNaN_def numeric_def toLatLngs_mkBox split: jsval.splits)

theorem LatLng_raises_iff_isNaN_witness:
  "numeric (JNum (Fin 1)) \<and> numeric (JNum (Fin 2)) \<and>
   LatLng (JNum (Fin 1)) (JNum (Fin 2)) JUndefined = Inr \<lparr>lat = Fin 1, lng = Fin 2, alt = None\<rparr> \<and>
   2 \<le> length [JArr [JNum (Fin 1), JNum NaN], JArr [JNum (Fin 1), JNum (Fin 2)]] \<and>
   toLatLngs [JArr [JNum (Fin 1), JNum NaN], JArr [JNum (Fin 1), JNum (Fin 2)]] = Inl InvalidLatLng \<and>
   mkBox initialRouteBoxer (JArr [JArr [JNum (Fin 1), JNum NaN], JArr [JNum (Fin 1), JNum (Fin 2)]]) (Fin 5)
     = Some (Inl InvalidLatLng)"
proof -
  let ?ps = "[JArr [JNum (Fin 1), JNum NaN], JArr [JNum (Fin 1), JNum (Fin 2)]]"
  have n: "numeric (JNum (Fin 1))" "numeric (JNum (Fin 2))" by (simp_all add: numeric_def)
  have p: "LatLng (JNum (Fin 1)) (JNum (Fin 2)) JUndefined = Inr \<lparr>lat = Fin 1, lng = Fin 2, alt = None\<rparr>"
    by (simp add: LatLng_def isNaN_def)
  have t: "2 \<le> length ?ps" "toLatLngs ?ps = Inl InvalidLatLng"
    by (simp_all add: js_index_def LatLng_def isNaN_def ebind_def)
  from LatLng_raises_iff_isNaN
         [of "JNum (Fin 1)" "JNum (Fin 2)" JUndefined ?ps InvalidLatLng initialRouteBoxer "Fin 5"] n p t
  show ?thesis by blast
qed

text \<open>
  The claim as the specification words it (an error if and only if a coordinate is
  non-numeric) fails for \<^verbatim>\<open>null\<close>: \<^verbatim>\<open>new LatLng(null, 0)\<close> is the point \<open>(0, 0)\<close>.
\<close>

theorem LatLng_null_counterexample:
  "\<not> numeric JNull \<and>
   LatLng JNull (JNum (Fin 0)) JUndefined = Inr \<lparr>lat = Fin 0, lng = Fin 0, alt = None\<rparr>"
  by (simp add: numeric_def LatLng_def isNaN_def)

section \<open>The longitude of a rhumb destination\<close>

lemma tan_PI4: "Math_tan (Fin (pi / 4)) = Fin 1"
  by (simp add: cos_45 tan_45)

lemma mod_range:
  assumes "0 \<le> x" "0 < m"
  shows "0 \<le> x - m * of_int (trunc (x / m))" "x - m * of_int (trunc (x / m)) < m"
proof -
  have q: "0 \<le> x / m" using assms by simp
  then have t: "trunc (x / m) = \<lfloor>x / m\<rfloor>" by (simp add: trunc_def)
  have "of_int \<lfloor>x / m\<rfloor> \<le> x / m" by simp
  then have "m * of_int \<lfloor>x / m\<rfloor> \<le> m * (x / m)"
    using assms(2) by (intro mult_left_mono) simp_all
  then have "m * of_int \<lfloor>x / m\<rfloor> \<le> x" using assms(2) by simp
  then show "0 \<le> x - m * of_int (trunc (x / m))" using t by simp
  have "x / m < of_int \<lfloor>x / m\<rfloor> + 1" by linarith
  then have "m * (x / m) < m * (of_int \<lfloor>x / m\<rfloor> + 1)"
    using assms(2) by (intro mult_strict_left_mono) simp_all
  then have "x < m * (of_int \<lfloor>x / m\<rfloor> + 1)" using assms(2) by simp
  then show "x - m * of_int (trunc (x / m)) < m" using t by (simp add: algebra_simps)
qed

text \<open>
  The bound on the longitude, for every latitude and every sum that the first lines of
  the function may hand to its last lines.
\<close>

lemma rhumbDestinationPoint_rhumbPointOf:
  "rhumbDestinationPoint this brng distance
     = rhumbPointOf (rhumbLat2 this brng distance) (rhumbLonSum this brng distance)"
  by (simp add: rhumbDestinationPoint_def rhumbPointOf_def Let_def)

lemma rhumbPointOf_lng:
  assumes r: "rhumbPointOf lat2 lonSum = Inr (Some q)"
    and s: "js_le (Fin 0) lonSum"
  shows "js_le (Fin (- 180)) (lng q) \<and> js_lt (lng q) (Fin 180)"
proof -
  obtain x where x: "lonSum = Fin x" "0 \<le> x"
    using s r
    by (cases lonSum) (auto simp: js_le_def js_eq_def rhumbPointOf_def Let_def Math_PI_def js_sub_def)
  define y where "y = x - (2 * pi) * of_int (trunc (x / (2 * pi)))"
  have y: "0 \<le> y" "y < 2 * pi"
    using mod_range [of x "2 * pi"] x(2) by (simp_all add: y_def)
  have m: "js_sub (js_mod lonSum (js_mul (Fin 2) Math_PI)) Math_PI = Fin (y - pi)"
    by (simp add: x Math_PI_def js_sub_def y_def)
  from r m have "lng q = toDeg (Fin (y - pi))"
    by (auto simp: rhumbPointOf_def Let_def LatLng_def ebind_def split: if_splits)
  then have l: "lng q = Fin ((y - pi) * 180 / pi)"
    by (simp add: toDeg_def Math_PI_def)
  have "- 180 \<le> (y - pi) * 180 / pi" using y(1) by (simp add: field_simps)
  moreover have "(y - pi) * 180 / pi < 180" using y(2) by (simp add: field_simps)
  ultimately show ?thesis by (simp add: l js_le_def js_eq_def) linarith
qed

lemma rhumbDestinationPoint_lng:
  assumes "rhumbDestinationPoint this brng distance = Inr (Some q)"
    and "js_le (Fin 0) (rhumbLonSum this brng distance)"
  shows "js_le (Fin (- 180)) (lng q) \<and> js_lt (lng q) (Fin 180)"
  using assms by (simp only: rhumbDestinationPoint_rhumbPointOf) (rule rhumbPointOf_lng)

text \<open>
  From latitude 90 with distance 0, the exact tangent is infinite and no point is
  returned; with the latitude \<open>\<pi> / 2\<close> and the sum \<open>\<pi>\<close>, which is what the code computes
  there up to rounding, the last lines return the point \<open>(90, 0)\<close>.
\<close>

lemma rhumbPointOf_pole:
  "rhumbPointOf (Fin (pi / 2)) (Fin pi) = Inr (Some \<lparr>lat = Fin 90, lng = Fin 0, alt = None\<rparr>)"
proof -
  have "trunc (pi / (2 * pi)) = 0" by (simp add: trunc_def floor_eq_iff)
  then show ?thesis
    by (simp add: rhumbPointOf_def Let_def Math_PI_def js_sub_def toDeg_def LatLng_def isNaN_def ebind_def)
qed

lemma rhumbDestinationPoint_pole:
  "rhumbDestinationPoint \<lparr>lat = Fin 90, lng = Fin 0, alt = None\<rparr> (Fin 0) (Fin 0) = Inr None"
  by (simp add: rhumbDestinationPoint_def rhumbLat2_def rhumbLonSum_def toRad_def Math_PI_def
      parseFloat_def js_sub_def js_gt_def Let_def)

text \<open>
  From \<open>(0, 179)\<close>, 1000 km to the east: the sum is above \<open>2\<pi>\<close>, and the remainder takes
  \<open>2\<pi>\<close> off.
\<close>

lemma lonSum_east_from:
  "rhumbLonSum \<lparr>lat = Fin 0, lng = Fin l, alt = None\<rparr> (Fin 90) (Fin t) = Fin (l * pi / 180 + t / 6371 + pi)"
proof -
  define d where "d = t / 6371"
  define l1 where "l1 = l * pi / 180"
  have e1: "toRad (Fin 0) = Fin 0" "toRad (Fin 90) = Fin (pi / 2)" by (simp_all add: toRad_def Math_PI_def)
  have e1': "toRad (Fin l) = Fin l1" by (simp add: toRad_def Math_PI_def l1_def)
  have e2: "js_div (parseFloat (Fin t)) (Fin 6371) = Fin d" by (simp add: parseFloat_def d_def)
  have e3: "js_add (Fin 0) (js_mul (Fin d) (Math_cos (Fin (pi / 2)))) = Fin 0" by simp
  have e5: "Math_tan (js_add (js_div (Fin 0) (Fin 2)) (js_div Math_PI (Fin 4))) = Fin 1"
    by (simp add: Math_PI_def cos_45 tan_45)
  have e6: "Math_log (js_div (Fin 1) (Fin 1)) = Fin 0" by simp
  have e7: "js_sub (Fin 0) (Fin 0) = Fin 0" by (simp add: js_sub_def)
  have e8: "(if js_gt (Math_abs (Fin 0)) (Fin (1 / 10 ^ 10))
             then js_div (Fin 0) (Fin 0) else Math_cos (Fin 0)) = Fin 1"
    by (simp add: js_gt_def)
  have e9: "js_div (js_mul (Fin d) (Math_sin (Fin (pi / 2)))) (Fin 1) = Fin d" by simp
  have e10: "js_add (js_add (Fin l1) (Fin d)) Math_PI = Fin (l1 + d + pi)" by (simp add: Math_PI_def)
  have "rhumbLonSum \<lparr>lat = Fin 0, lng = Fin l, alt = None\<rparr> (Fin 90) (Fin t) = Fin (l1 + d + pi)"
    unfolding rhumbLonSum_def Let_def
    by (simp only: latlng.simps e1 e1' e2 e3 e5 e6 e7 e8 e9 e10)
  then show ?thesis by (simp only: d_def l1_def)
qed

lemma lat2_east_from: "rhumbLat2 \<lparr>lat = Fin 0, lng = Fin l, alt = None\<rparr> (Fin 90) (Fin t) = Fin 0"
  by (simp add: rhumbLat2_def toRad_def Math_PI_def parseFloat_def js_gt_def Let_def)

lemma wrap_lon_once: "2 * pi \<le> x \<Longrightarrow> x < 4 * pi \<Longrightarrow>
  js_sub (js_mod (Fin x) (js_mul (Fin 2) Math_PI)) Math_PI = Fin (x - 3 * pi)"
proof -
  assume x: "2 * pi \<le> x" "x < 4 * pi"
  then have "1 \<le> x / (2 * pi)" "x / (2 * pi) < 2" "0 \<le> x / (2 * pi)" by (simp_all add: field_simps)
  then have "trunc (x / (2 * pi)) = 1" by (simp add: trunc_def floor_eq_iff)
  then show ?thesis by (simp add: Math_PI_def js_sub_def)
qed

lemma rhumbPointOf_east_179:
  "rhumbPointOf (Fin 0) (Fin (179 * pi / 180 + 1000 / 6371 + pi))
     = Inr (Some \<lparr>lat = Fin 0, lng = Fin (gridStep 1000 - 181), alt = None\<rparr>)"
proof -
  let ?x = "179 * pi / 180 + 1000 / 6371 + pi"
  have p: "2 \<le> pi" "pi < 4" using pi_ge_two pi_less_4 by simp_all
  have "2 * pi \<le> ?x" using p by (simp add: field_simps)
  moreover have "?x < 4 * pi" using p by (simp add: field_simps)
  ultimately have "js_sub (js_mod (Fin ?x) (js_mul (Fin 2) Math_PI)) Math_PI = Fin (?x - 3 * pi)"
    by (intro wrap_lon_once)
  then show ?thesis
    unfolding rhumbPointOf_def Let_def
    by (simp add: ebind_def toDeg_def Math_PI_def LatLng_def isNaN_def gridStep_def field_simps)
qed

text \<open>
  C5, as the code has it. The function reduces \<^verbatim>\<open>lon1 + dLon + Math.PI\<close> modulo \<open>2\<pi>\<close>
  and subtracts \<open>\<pi>\<close>: it is \<open>rhumbPointOf\<close> of the latitude and of the sum that it has
  computed from the starting point, the bearing and the distance. Whatever these two
  values are, when the sum is not negative and a point is returned, the longitude of
  the point is in \<open>[-180, 180)\<close>: \<open>-180\<close> is reached and \<open>180\<close> is not.
\<close>

theorem rhumb_lng_range:
  "rhumbDestinationPoint this brng distance
     = rhumbPointOf (rhumbLat2 this brng distance) (rhumbLonSum this brng distance) \<and>
   (rhumbPointOf lat2 lonSum = Inr (Some q) \<longrightarrow> js_le (Fin 0) lonSum \<longrightarrow>
      js_le (Fin (- 180)) (lng q) \<and> js_lt (lng q) (Fin 180))"
  using rhumbDestinationPoint_rhumbPointOf rhumbPointOf_lng by blast

text \<open>
  From \<open>(0, 179)\<close>, 1000 km to the east: the sum is above \<open>2\<pi>\<close>, the remainder takes
  \<open>2\<pi>\<close> off, and the point returned is at the longitude \<open>gridStep 1000 - 181\<close>, about
  \<open>-172\<close>, west of the starting point and within the bounds.
\<close>

theorem rhumb_lng_range_witness:
  "rhumbDestinationPoint \<lparr>lat = Fin 0, lng = Fin 179, alt = None\<rparr> (Fin 90) (Fin 1000)
     = Inr (Some \<lparr>lat = Fin 0, lng = Fin (gridStep 1000 - 181), alt = None\<rparr>) \<and>
   rhumbLonSum \<lparr>lat = Fin 0, lng = Fin 179, alt = None\<rparr> (Fin 90) (Fin 1000)
     = Fin (179 * pi / 180 + 1000 / 6371 + pi) \<and>
   js_lt (js_mul (Fin 2) Math_PI) (Fin (179 * pi / 180 + 1000 / 6371 + pi)) \<and>
   js_le (Fin 0) (Fin (179 * pi / 180 + 1000 / 6371 + pi)) \<and>
   js_le (Fin (- 180)) (lng \<lparr>lat = Fin 0, lng = Fin (gridStep 1000 - 181), alt = None\<rparr>) \<and>
   js_lt (lng \<lparr>lat = Fin 0, lng = Fin (gridStep 1000 - 181), alt = None\<rparr>) (Fin 180) \<and>
   js_lt (Fin (gridStep 1000 - 181)) (Fin 179)"
proof -
  let ?p = "\<lparr>lat = Fin 0, lng = Fin 179, alt = None\<rparr>"
  let ?q = "\<lparr>lat = Fin 0, lng = Fin (gridStep 1000 - 181), alt = None\<rparr>"
  let ?x = "179 * pi / 180 + 1000 / 6371 + pi"
  note t = rhumb_lng_range [of ?p "Fin 90" "Fin 1000" "Fin 0" "Fin ?x" ?q]
  have sum: "rhumbLonSum ?p (Fin 90) (Fin 1000) = Fin ?x"
    by (simp add: lonSum_east_from)
  have a: "rhumbPointOf (Fin 0) (Fin ?x) = Inr (Some ?q)"
    by (rule rhumbPointOf_east_179)
  from t have "rhumbDestinationPoint ?p (Fin 90) (Fin 1000)
      = rhumbPointOf (rhumbLat2 ?p (Fin 90) (Fin 1000)) (rhumbLonSum ?p (Fin 90) (Fin 1000))"
    by (rule conjunct1)
  then have run: "rhumbDestinationPoint ?p (Fin 90) (Fin 1000) = Inr (Some ?q)"
    by (simp only: sum lat2_east_from a)
  have pos: "0 < ?x" using pi_gt_zero by (simp add: add_pos_pos)
  then have b: "js_le (Fin 0) (Fin ?x)" by (simp only: js_le_def js_lt.simps simp_thms)
  from t a b have range: "js_le (Fin (- 180)) (lng ?q) \<and> js_lt (lng ?q) (Fin 180)"
    by blast
  have "2 * pi < ?x" using pi_less_4 by (simp add: field_simps)
  then have wrap: "js_lt (js_mul (Fin 2) Math_PI) (Fin ?x)" by (simp add: Math_PI_def)
  have c: "js_lt (Fin (gridStep 1000 - 181)) (Fin 179)"
    using pi_ge_two by (simp add: gridStep_def field_simps)
  from run sum wrap b range c show ?thesis by (intro conjI) (elim conjE | assumption)+
qed

text \<open>
  The interval of the specification, \<open>(-180, 180]\<close>, is not the one of the code: from
  longitude \<open>180\<close>, a step of length zero gives longitude \<open>-180\<close>.
\<close>

theorem rhumb_lng_counterexample:
  "rhumbDestinationPoint \<lparr>lat = Fin 0, lng = Fin 180, alt = None\<rparr> (Fin 0) (Fin 0)
     = Inr (Some \<lparr>lat = Fin 0, lng = Fin (- 180), alt = None\<rparr>) \<and>
   \<not> lngNormalized \<lparr>lat = Fin 0, lng = Fin (- 180), alt = None\<rparr>"
  by (simp add: rhumbDestinationPoint_def rhumbLat2_def rhumbLonSum_def toRad_def toDeg_def
      Math_PI_def parseFloat_def js_sub_def js_gt_def tan_PI4 trunc_def LatLng_def isNaN_def
      ebind_def Let_def lngNormalized_def)


section \<open>What marking and merging leave alone\<close>

lemma grows_refl: "grows st st"
  by (simp add: grows_def split: option.splits)

lemma grows_trans: "grows a b \<Longrightarrow> grows b c \<Longrightarrow> grows a c"
  unfolding grows_def
  by (cases "grid a"; cases "grid b"; cases "grid c") (auto intro: order_trans)

lemma ebind_Inr: "ebind m f = Inr y \<Longrightarrow> \<exists>x. m = Inr x \<and> f x = Inr y"
  by (cases m) (simp_all add: ebind_def)

lemma setCell_grows: "setCell st x y = Inr st' \<Longrightarrow> grows st st'"
  by (auto simp: setCell_def ebind_def deref_def grows_def setRow_def nth_list_update
      split: option.splits if_splits)

lemma grows_ebind:
  assumes "ebind m g = Inr st'" "\<And>s. m = Inr s \<Longrightarrow> grows st s" "\<And>s. g s = Inr st' \<Longrightarrow> grows s st'"
  shows "grows st st'"
proof -
  from assms(1) obtain s where "m = Inr s" "g s = Inr st'" by (auto dest: ebind_Inr)
  with assms(2,3) show ?thesis by (blast intro: grows_trans)
qed

lemma markCell_grows: "markCell st cell = Inr st' \<Longrightarrow> grows st st'"
  unfolding markCell_def Let_def
  apply (erule grows_ebind, erule setCell_grows)+
  apply (erule setCell_grows)
  done

lemma fillUp_grows: "fillUp st x endx y = Inr st' \<Longrightarrow> grows st st'"
proof (induction st x endx y rule: fillUp.induct)
  case (1 st x endx y)
  show ?case
  proof (cases "x \<le> endx")
    case True
    with "1.prems" obtain s1 where a: "markCell st (x, y) = Inr s1" and b: "fillUp s1 (x + 1) endx y = Inr st'"
      by (subst (asm) fillUp.simps) (auto dest: ebind_Inr)
    from markCell_grows [OF a] "1.IH" [OF True b] show ?thesis by (rule grows_trans)
  next
    case False
    with "1.prems" show ?thesis by (subst (asm) fillUp.simps) (simp add: grows_refl)
  qed
qed

lemma fillDown_grows: "fillDown st x endx y = Inr st' \<Longrightarrow> grows st st'"
proof (induction st x endx y rule: fillDown.induct)
  case (1 st x endx y)
  show ?case
  proof (cases "x \<ge> endx")
    case True
    with "1.prems" obtain s1 where a: "markCell st (x, y) = Inr s1" and b: "fillDown s1 (x - 1) endx y = Inr st'"
      by (subst (asm) fillDown.simps) (auto dest: ebind_Inr)
    from markCell_grows [OF a] "1.IH" [OF True b] show ?thesis by (rule grows_trans)
  next
    case False
    with "1.prems" show ?thesis by (subst (asm) fillDown.simps) (simp add: grows_refl)
  qed
qed

lemma fillInGridSquares_grows: "fillInGridSquares st a b y = Inr st' \<Longrightarrow> grows st st'"
  by (auto simp: fillInGridSquares_def split: if_splits dest: fillUp_grows fillDown_grows)

lemma intersectsUp_grows:
  "intersectsUp st start brng hint hintXY i endY = Inr (st', r) \<Longrightarrow> grows st st'"
proof (induction st start brng hint hintXY i endY rule: intersectsUp.induct)
  case (1 st start brng hint hintXY i endY)
  show ?case
  proof (cases "i \<le> endY")
    case True
    with "1.prems" obtain e s1 where
      c: "fillInGridSquares st (fst hintXY) (fst (getGridCoordsFromHint st e hint hintXY)) (i - 1) = Inr s1"
      and d: "intersectsUp s1 start brng e (getGridCoordsFromHint st e hint hintXY) (i + 1) endY = Inr (st', r)"
      by (subst (asm) intersectsUp.simps) (auto dest!: ebind_Inr)
    from fillInGridSquares_grows [OF c] "1.IH" [OF True d] show ?thesis by (rule grows_trans)
  next
    case False
    with "1.prems" show ?thesis by (subst (asm) intersectsUp.simps) (simp add: grows_refl)
  qed
qed

lemma intersectsDown_grows:
  "intersectsDown st start brng hint hintXY i endY = Inr (st', r) \<Longrightarrow> grows st st'"
proof (induction st start brng hint hintXY i endY rule: intersectsDown.induct)
  case (1 st start brng hint hintXY i endY)
  show ?case
  proof (cases "i > endY")
    case True
    with "1.prems" obtain e s1 where
      c: "fillInGridSquares st (fst hintXY) (fst (getGridCoordsFromHint st e hint hintXY)) i = Inr s1"
      and d: "intersectsDown s1 start brng e (getGridCoordsFromHint st e hint hintXY) (i - 1) endY = Inr (st', r)"
      by (subst (asm) intersectsDown.simps) (auto dest!: ebind_Inr)
    from fillInGridSquares_grows [OF c] "1.IH" [OF True d] show ?thesis by (rule grows_trans)
  next
    case False
    with "1.prems" show ?thesis by (subst (asm) intersectsDown.simps) (simp add: grows_refl)
  qed
qed

lemma getGridIntersects_grows:
  assumes "getGridIntersects st start endv startXY endXY = Inr st'"
  shows "grows st st'"
proof (cases "js_gt (lat endv) (lat start)")
  case True
  with assms obtain s1 h i where
    a: "intersectsUp st start (rhumbBearingTo start endv) start startXY (snd startXY + 1) (snd endXY) = Inr (s1, h, i)"
    and b: "fillInGridSquares s1 (fst h) (fst endXY) (i - 1) = Inr st'"
    unfolding getGridIntersects_def Let_def by (auto dest!: ebind_Inr)
  from intersectsUp_grows [OF a] fillInGridSquares_grows [OF b] show ?thesis by (rule grows_trans)
next
  case False
  with assms obtain s1 h i where
    a: "intersectsDown st start (rhumbBearingTo start endv) start startXY (snd startXY) (snd endXY) = Inr (s1, h, i)"
    and b: "fillInGridSquares s1 (fst h) (fst endXY) i = Inr st'"
    unfolding getGridIntersects_def Let_def by (auto dest!: ebind_Inr)
  from intersectsDown_grows [OF a] fillInGridSquares_grows [OF b] show ?thesis by (rule grows_trans)
qed

lemma walk_Cons_cases:
  assumes "walk st prev hintXY (v # vs) = Inr st'"
  obtains (same) "walk st v hintXY vs = Inr st'"
  | (adjacent) s1 where "markCell st (getGridCoordsFromHint st v prev hintXY) = Inr s1"
      "walk s1 v (getGridCoordsFromHint st v prev hintXY) vs = Inr st'"
  | (far) s1 where "getGridIntersects st prev v hintXY (getGridCoordsFromHint st v prev hintXY) = Inr s1"
      "walk s1 v (getGridCoordsFromHint st v prev hintXY) vs = Inr st'"
proof -
  let ?g = "getGridCoordsFromHint st v prev hintXY"
  show thesis
  proof (cases "fst ?g = fst hintXY \<and> snd ?g = snd hintXY")
    case True
    with assms have "walk st v hintXY vs = Inr st'" by (simp add: Let_def)
    then show thesis by (rule same)
  next
    case ns: False
    show thesis
    proof (cases "(\<bar>fst hintXY - fst ?g\<bar> = 1 \<and> snd hintXY = snd ?g) \<or> (fst hintXY = fst ?g \<and> \<bar>snd hintXY - snd ?g\<bar> = 1)")
      case True
      with ns assms have "ebind (markCell st ?g) (\<lambda>s. walk s v ?g vs) = Inr st'"
        by (simp only: walk.simps Let_def if_True if_False)
      then show thesis by (auto dest!: ebind_Inr intro: adjacent)
    next
      case False
      with ns assms have "ebind (getGridIntersects st prev v hintXY ?g) (\<lambda>s. walk s v ?g vs) = Inr st'"
        by (simp only: walk.simps Let_def if_True if_False)
      then show thesis by (auto dest!: ebind_Inr intro: far)
    qed
  qed
qed

lemma walk_grows: "walk st prev hintXY vs = Inr st' \<Longrightarrow> grows st st'"
proof (induction vs arbitrary: st prev hintXY)
  case Nil
  then show ?case by (simp add: grows_refl)
next
  case (Cons v vs)
  from Cons.prems show ?case
  proof (cases rule: walk_Cons_cases)
    case same
    then show ?thesis by (rule Cons.IH)
  next
    case (adjacent s1)
    from markCell_grows [OF adjacent(1)] Cons.IH [OF adjacent(2)] show ?thesis by (rule grows_trans)
  next
    case (far s1)
    from getGridIntersects_grows [OF far(1)] Cons.IH [OF far(2)] show ?thesis by (rule grows_trans)
  qed
qed

lemma findIntersectingCells_Inr:
  assumes "findIntersectingCells st vs = Inr st'"
  obtains v0 vs' s1 where "vs = v0 # vs'" "markCell st (getCellCoords st v0) = Inr s1"
    "walk s1 v0 (getCellCoords st v0) vs' = Inr st'"
  using assms by (cases vs) (auto simp: findIntersectingCells_def dest!: ebind_Inr)

lemma findIntersectingCells_grows:
  assumes "findIntersectingCells st vs = Inr st'"
  shows "grows st st'"
proof -
  from assms obtain v0 vs' s1 where a: "markCell st (getCellCoords st v0) = Inr s1"
    and b: "walk s1 v0 (getCellCoords st v0) vs' = Inr st'"
    by (rule findIntersectingCells_Inr)
  from markCell_grows [OF a] walk_grows [OF b] show ?thesis by (rule grows_trans)
qed

lemma obind_Some: "obind m f = Some (Inr y) \<Longrightarrow> \<exists>x. m = Some (Inr x) \<and> f x = Some (Inr y)"
  by (auto simp: obind_def split: option.splits sum.splits)

section \<open>Every box is ordered\<close>

lemma js_le_refl: "a \<noteq> NaN \<Longrightarrow> js_le a a"
  by (simp add: js_le_def js_eq_def)

lemma js_le_min_max:
  "a \<noteq> NaN \<Longrightarrow> b \<noteq> NaN \<Longrightarrow> p \<noteq> NaN \<Longrightarrow> js_le a b \<Longrightarrow> js_le (Math_min p a) (Math_max p b)"
  by (cases a; cases b; cases p) (auto simp: js_le_def js_eq_def Math_min_def Math_max_def)

lemma Math_min_NaN: "a \<noteq> NaN \<Longrightarrow> b \<noteq> NaN \<Longrightarrow> Math_min a b \<noteq> NaN"
  by (simp add: Math_min_def)

lemma Math_max_NaN: "a \<noteq> NaN \<Longrightarrow> b \<noteq> NaN \<Longrightarrow> Math_max a b \<noteq> NaN"
  by (simp add: Math_max_def)

lemma LatLng_not_NaN: "LatLng la lo al = Inr p \<Longrightarrow> lat p \<noteq> NaN \<and> lng p \<noteq> NaN"
  by (auto simp: LatLng_def isNaN_def split: if_splits)

lemma boundsExtend_ok_empty:
  "boundsExtend emptyBounds p = Inr b \<Longrightarrow> okBounds b"
  by (auto simp: boundsExtend_def emptyBounds_def okBounds_def LatLng_def isNaN_def ebind_def js_le_refl
      split: if_splits)

lemma boundsExtend_ok:
  "okBounds b \<Longrightarrow> lat p \<noteq> NaN \<Longrightarrow> lng p \<noteq> NaN \<Longrightarrow> boundsExtend b p = Inr b' \<Longrightarrow> okBounds b'"
  by (auto simp: boundsExtend_def okBounds_def js_le_min_max Math_min_NaN Math_max_NaN
      split: option.splits)

lemma LatLngBounds_ok:
  "lat c2 \<noteq> NaN \<Longrightarrow> lng c2 \<noteq> NaN \<Longrightarrow> LatLngBounds c1 c2 = Inr b \<Longrightarrow> okBounds b"
  by (auto simp: LatLngBounds_def ebind_def split: sum.splits
      dest: boundsExtend_ok_empty boundsExtend_ok)

lemma getCellBounds_ok: "getCellBounds st cell = Inr b \<Longrightarrow> okBounds b"
  by (auto simp: getCellBounds_def ebind_def split: sum.splits
      dest!: LatLng_not_NaN intro: LatLngBounds_ok)

lemma extendBy_ok:
  "okBounds cb \<Longrightarrow> okBounds bx \<Longrightarrow> extendBy cb (northEast bx) = Inr cb' \<Longrightarrow> okBounds cb'"
  by (cases "northEast bx")
     (auto simp: extendBy_def okBounds_def [of bx] split: option.splits intro: boundsExtend_ok)

lemma mergeBoxes_ok:
  "list_all okBounds bs \<Longrightarrow> okBounds bx \<Longrightarrow> mergeBoxes test bs bx = Inr bs' \<Longrightarrow> list_all okBounds bs'"
proof (induction bs arbitrary: bs')
  case Nil
  then show ?case by auto
next
  case (Cons b bs)
  then show ?case
    by (auto simp: ebind_def split: sum.splits if_splits intro: extendBy_ok)
qed

lemma mergeBoxesX_ok:
  "okBoxes st \<Longrightarrow> okCurrent cb \<Longrightarrow> mergeBoxesX st cb = Inr st' \<Longrightarrow> okBoxes st'"
  by (auto simp: mergeBoxesX_def okBoxes_def okCurrent_def ebind_def
      split: option.splits sum.splits dest: mergeBoxes_ok)

lemma mergeBoxesY_ok:
  "okBoxes st \<Longrightarrow> okCurrent cb \<Longrightarrow> mergeBoxesY st cb = Inr st' \<Longrightarrow> okBoxes st'"
  by (auto simp: mergeBoxesY_def okBoxes_def okCurrent_def ebind_def
      split: option.splits sum.splits dest: mergeBoxes_ok)

lemma sweepCell_ok:
  assumes m: "\<And>s c s'. okBoxes s \<Longrightarrow> okCurrent c \<Longrightarrow> merge s c = Inr s' \<Longrightarrow> okBoxes s'"
    and "okBoxes st" "okCurrent cb" "sweepCell merge st cb cell = Inr (st', cb')"
  shows "okBoxes st' \<and> okCurrent cb'"
proof (cases "cellMarked st (fst cell) (snd cell)")
  case (Inl e)
  with assms(4) show ?thesis by (simp add: sweepCell_def ebind_def)
next
  case (Inr marked)
  show ?thesis
  proof (cases marked)
    case True
    with Inr assms(2-) show ?thesis
      by (auto simp: sweepCell_def ebind_def okCurrent_def
          split: sum.splits option.splits dest: getCellBounds_ok extendBy_ok)
  next
    case False
    with Inr assms(4) have "merge st cb = Inr st'" "cb' = None"
      by (auto simp: sweepCell_def ebind_def split: sum.splits)
    with m [OF assms(2,3)] show ?thesis by (simp add: okCurrent_def)
  qed
qed

lemma sweepRow_ok:
  "okBoxes st \<Longrightarrow> okCurrent cb \<Longrightarrow> sweepRow st cb y xs = Inr (st', cb') \<Longrightarrow> okBoxes st' \<and> okCurrent cb'"
proof (induction xs arbitrary: st cb)
  case Nil
  then show ?case by simp
next
  case (Cons x xs)
  from Cons.prems(3) obtain s1 c1 where
    a: "sweepCell mergeBoxesY st cb (int x, y) = Inr (s1, c1)" and b: "sweepRow s1 c1 y xs = Inr (st', cb')"
    by (auto simp: ebind_def split: sum.splits)
  from sweepCell_ok [OF mergeBoxesY_ok Cons.prems(1,2) a] have "okBoxes s1" "okCurrent c1" by auto
  from Cons.IH [OF this b] show ?case .
qed

lemma sweepCol_ok:
  "okBoxes st \<Longrightarrow> okCurrent cb \<Longrightarrow> sweepCol st cb x ys = Inr (st', cb') \<Longrightarrow> okBoxes st' \<and> okCurrent cb'"
proof (induction ys arbitrary: st cb)
  case Nil
  then show ?case by simp
next
  case (Cons y ys)
  from Cons.prems(3) obtain s1 c1 where
    a: "sweepCell mergeBoxesX st cb (x, int y) = Inr (s1, c1)" and b: "sweepCol s1 c1 x ys = Inr (st', cb')"
    by (auto simp: ebind_def split: sum.splits)
  from sweepCell_ok [OF mergeBoxesX_ok Cons.prems(1,2) a] have "okBoxes s1" "okCurrent c1" by auto
  from Cons.IH [OF this b] show ?case .
qed

lemma sweepRows_ok:
  "okBoxes st \<Longrightarrow> sweepRows st xs ys = Inr st' \<Longrightarrow> okBoxes st'"
proof (induction ys arbitrary: st)
  case Nil
  then show ?case by simp
next
  case (Cons y ys)
  from Cons.prems(2) obtain s1 c1 s2 where
    a: "sweepRow st None (int y) xs = Inr (s1, c1)" and b: "mergeBoxesY s1 c1 = Inr s2"
    and c: "sweepRows s2 xs ys = Inr st'"
    by (auto simp: ebind_def split: sum.splits)
  from sweepRow_ok [OF Cons.prems(1) _ a] have "okBoxes s1" "okCurrent c1" by (auto simp: okCurrent_def)
  from mergeBoxesY_ok [OF this b] have "okBoxes s2" .
  from Cons.IH [OF this c] show ?case .
qed

lemma sweepCols_ok:
  "okBoxes st \<Longrightarrow> sweepCols st ys xs = Inr st' \<Longrightarrow> okBoxes st'"
proof (induction xs arbitrary: st)
  case Nil
  then show ?case by simp
next
  case (Cons x xs)
  from Cons.prems(2) obtain s1 c1 s2 where
    a: "sweepCol st None (int x) ys = Inr (s1, c1)" and b: "mergeBoxesX s1 c1 = Inr s2"
    and c: "sweepCols s2 ys xs = Inr st'"
    by (auto simp: ebind_def split: sum.splits)
  from sweepCol_ok [OF Cons.prems(1) _ a] have "okBoxes s1" "okCurrent c1" by (auto simp: okCurrent_def)
  from mergeBoxesX_ok [OF this b] have "okBoxes s2" .
  from Cons.IH [OF this c] show ?case .
qed

lemma mergeIntersectingCells_ok:
  "okBoxes st \<Longrightarrow> mergeIntersectingCells st = Inr st' \<Longrightarrow> okBoxes st'"
  by (auto simp: mergeIntersectingCells_def ebind_def split: sum.splits
      dest: sweepRows_ok sweepCols_ok)


lemma buildGrid_boxes:
  "buildGrid st vs rng = Some (Inr st') \<Longrightarrow> boxesX st' = boxesX st \<and> boxesY st' = boxesY st"
  unfolding buildGrid_def
  apply (drule obind_Some, clarify)+
  apply simp
  done

lemma box_Inr:
  assumes "box st path rng = Some (Inr (bs, st'))"
  obtains st1 st2 where
    "buildGrid initialRouteBoxer path rng = Some (Inr st1)"
    "findIntersectingCells st1 path = Inr st2"
    "mergeIntersectingCells st2 = Inr st'"
    "bs = (if length (boxesX st') \<le> length (boxesY st') then boxesX st' else boxesY st')"
  using assms unfolding box_def reset_initial
  by (auto dest!: obind_Some ebind_Inr)

lemma box_ok:
  assumes "box st path rng = Some (Inr (bs, st'))"
  shows "list_all okBounds bs"
proof -
  from assms obtain st1 st2 where
    a: "buildGrid initialRouteBoxer path rng = Some (Inr st1)"
    and b: "findIntersectingCells st1 path = Inr st2"
    and c: "mergeIntersectingCells st2 = Inr st'"
    and d: "bs = (if length (boxesX st') \<le> length (boxesY st') then boxesX st' else boxesY st')"
    by (rule box_Inr)
  from buildGrid_boxes [OF a] have "boxesX st1 = []" "boxesY st1 = []"
    by (simp_all add: initialRouteBoxer_def)
  with findIntersectingCells_grows [OF b] have "okBoxes st2"
    by (simp add: grows_def okBoxes_def)
  from mergeIntersectingCells_ok [OF this c] d show ?thesis
    by (simp add: okBoxes_def)
qed

lemma toPairs_ordered:
  "list_all okBounds bs \<Longrightarrow> toPairs bs = Inr ps \<Longrightarrow> list_all boxOrdered ps"
proof (induction bs arbitrary: ps)
  case Nil
  then show ?case by auto
next
  case (Cons b bs)
  then show ?case
    by (auto simp: okBounds_def boxOrdered_def deref_def dest!: ebind_Inr split: option.splits)
qed

lemma mkBox_Inr:
  assumes "mkBox st pts dis = Some (Inr (boxes, st'))"
  obtains (short) "boxes = []" "st' = st" "\<And>ps. pts = JArr ps \<Longrightarrow> length ps < 2"
  | (run) ps lls bs where "pts = JArr ps" "2 \<le> length ps" "toLatLngs ps = Inr lls"
      "box st lls dis = Some (Inr (bs, st'))" "toPairs bs = Inr boxes"
  using assms unfolding mkBox_def boxPairs_def
  by (auto split: jsval.splits if_splits dest!: obind_Some ebind_Inr)


section \<open>What the two sweeps change, and when their lists are not empty\<close>

lemma mergeBoxes_nonempty: "mergeBoxes test bs b = Inr bs' \<Longrightarrow> bs' \<noteq> []"
  by (cases bs) (auto dest!: ebind_Inr split: if_splits)

lemma mergeBoxesY_frame: "mergeBoxesY st cb = Inr st' \<Longrightarrow> \<exists>b. st' = st\<lparr>boxesY := b\<rparr>"
  by (cases cb) (auto simp: mergeBoxesY_def dest!: ebind_Inr intro: exI [of _ "boxesY st"])

lemma mergeBoxesX_frame: "mergeBoxesX st cb = Inr st' \<Longrightarrow> \<exists>b. st' = st\<lparr>boxesX := b\<rparr>"
  by (cases cb) (auto simp: mergeBoxesX_def dest!: ebind_Inr intro: exI [of _ "boxesX st"])

lemma sweepCell_cases:
  assumes "sweepCell merge st cb cell = Inr (st', cb')"
  obtains (marked) bx where "cellMarked st (fst cell) (snd cell) = Inr True" "st' = st"
      "getCellBounds st cell = Inr bx"
      "(cb = None \<and> cb' = Some bx) \<or> (\<exists>c c'. cb = Some c \<and> extendBy c (northEast bx) = Inr c' \<and> cb' = Some c')"
  | (unmarked) "cellMarked st (fst cell) (snd cell) = Inr False" "merge st cb = Inr st'" "cb' = None"
  using assms unfolding sweepCell_def
  by (auto dest!: ebind_Inr split: if_splits option.splits)

lemma sweepRow_frame: "sweepRow st cb y xs = Inr (st', cb') \<Longrightarrow> \<exists>b. st' = st\<lparr>boxesY := b\<rparr>"
proof (induction xs arbitrary: st cb)
  case Nil
  then show ?case by (auto intro: exI [of _ "boxesY st"])
next
  case (Cons x xs)
  from Cons.prems obtain s1 c1 where
    a: "sweepCell mergeBoxesY st cb (int x, y) = Inr (s1, c1)" and b: "sweepRow s1 c1 y xs = Inr (st', cb')"
    by (auto dest!: ebind_Inr)
  from a have "\<exists>b1. s1 = st\<lparr>boxesY := b1\<rparr>"
  proof (cases rule: sweepCell_cases)
    case (marked bx)
    then have "s1 = st\<lparr>boxesY := boxesY st\<rparr>" by simp
    then show ?thesis ..
  next
    case unmarked
    then show ?thesis by (auto dest: mergeBoxesY_frame)
  qed
  then obtain b1 where "s1 = st\<lparr>boxesY := b1\<rparr>" ..
  moreover from Cons.IH [OF b] obtain b2 where "st' = s1\<lparr>boxesY := b2\<rparr>" by blast
  ultimately show ?case by auto
qed

lemma sweepCol_frame: "sweepCol st cb x ys = Inr (st', cb') \<Longrightarrow> \<exists>b. st' = st\<lparr>boxesX := b\<rparr>"
proof (induction ys arbitrary: st cb)
  case Nil
  then show ?case by (auto intro: exI [of _ "boxesX st"])
next
  case (Cons y ys)
  from Cons.prems obtain s1 c1 where
    a: "sweepCell mergeBoxesX st cb (x, int y) = Inr (s1, c1)" and b: "sweepCol s1 c1 x ys = Inr (st', cb')"
    by (auto dest!: ebind_Inr)
  from a have "\<exists>b1. s1 = st\<lparr>boxesX := b1\<rparr>"
  proof (cases rule: sweepCell_cases)
    case (marked bx)
    then have "s1 = st\<lparr>boxesX := boxesX st\<rparr>" by simp
    then show ?thesis ..
  next
    case unmarked
    then show ?thesis by (auto dest: mergeBoxesX_frame)
  qed
  then obtain b1 where "s1 = st\<lparr>boxesX := b1\<rparr>" ..
  moreover from Cons.IH [OF b] obtain b2 where "st' = s1\<lparr>boxesX := b2\<rparr>" by blast
  ultimately show ?case by auto
qed

lemma sweepRows_frame: "sweepRows st xs ys = Inr st' \<Longrightarrow> \<exists>b. st' = st\<lparr>boxesY := b\<rparr>"
proof (induction ys arbitrary: st)
  case Nil
  then show ?case by (auto intro: exI [of _ "boxesY st"])
next
  case (Cons y ys)
  from Cons.prems obtain s1 c1 s2 where
    a: "sweepRow st None (int y) xs = Inr (s1, c1)" and b: "mergeBoxesY s1 c1 = Inr s2"
    and c: "sweepRows s2 xs ys = Inr st'"
    by (auto dest!: ebind_Inr)
  from sweepRow_frame [OF a] obtain b1 where "s1 = st\<lparr>boxesY := b1\<rparr>" by blast
  moreover from mergeBoxesY_frame [OF b] obtain b2 where "s2 = s1\<lparr>boxesY := b2\<rparr>" by blast
  moreover from Cons.IH [OF c] obtain b3 where "st' = s2\<lparr>boxesY := b3\<rparr>" by blast
  ultimately show ?case by auto
qed

lemma sweepCols_frame: "sweepCols st ys xs = Inr st' \<Longrightarrow> \<exists>b. st' = st\<lparr>boxesX := b\<rparr>"
proof (induction xs arbitrary: st)
  case Nil
  then show ?case by (auto intro: exI [of _ "boxesX st"])
next
  case (Cons x xs)
  from Cons.prems obtain s1 c1 s2 where
    a: "sweepCol st None (int x) ys = Inr (s1, c1)" and b: "mergeBoxesX s1 c1 = Inr s2"
    and c: "sweepCols s2 ys xs = Inr st'"
    by (auto dest!: ebind_Inr)
  from sweepCol_frame [OF a] obtain b1 where "s1 = st\<lparr>boxesX := b1\<rparr>" by blast
  moreover from mergeBoxesX_frame [OF b] obtain b2 where "s2 = s1\<lparr>boxesX := b2\<rparr>" by blast
  moreover from Cons.IH [OF c] obtain b3 where "st' = s2\<lparr>boxesX := b3\<rparr>" by blast
  ultimately show ?case by auto
qed

lemma mergeBoxesY_nonempty:
  "mergeBoxesY st cb = Inr st' \<Longrightarrow> boxesY st \<noteq> [] \<or> cb \<noteq> None \<Longrightarrow> boxesY st' \<noteq> []"
  by (cases cb) (auto simp: mergeBoxesY_def dest!: ebind_Inr dest: mergeBoxes_nonempty)

lemma mergeBoxesX_nonempty:
  "mergeBoxesX st cb = Inr st' \<Longrightarrow> boxesX st \<noteq> [] \<or> cb \<noteq> None \<Longrightarrow> boxesX st' \<noteq> []"
  by (cases cb) (auto simp: mergeBoxesX_def dest!: ebind_Inr dest: mergeBoxes_nonempty)

lemma cellMarked_boxes [simp]:
  "cellMarked (st\<lparr>boxesY := b\<rparr>) x y = cellMarked st x y"
  "cellMarked (st\<lparr>boxesX := b\<rparr>) x y = cellMarked st x y"
  by (simp_all add: cellMarked_def)

lemma sweepRow_nonempty:
  assumes "sweepRow st cb y xs = Inr (st', cb')"
    and "boxesY st \<noteq> [] \<or> cb \<noteq> None \<or> (\<exists>x \<in> set xs. cellMarked st (int x) y = Inr True)"
  shows "boxesY st' \<noteq> [] \<or> cb' \<noteq> None"
  using assms
proof (induction xs arbitrary: st cb)
  case Nil
  then show ?case by simp
next
  case (Cons x xs)
  from Cons.prems(1) obtain s1 c1 where
    a: "sweepCell mergeBoxesY st cb (int x, y) = Inr (s1, c1)" and b: "sweepRow s1 c1 y xs = Inr (st', cb')"
    by (auto dest!: ebind_Inr)
  from a have "boxesY s1 \<noteq> [] \<or> c1 \<noteq> None \<or> (\<exists>x \<in> set xs. cellMarked s1 (int x) y = Inr True)"
  proof (cases rule: sweepCell_cases)
    case (marked bx)
    then show ?thesis by auto
  next
    case unmarked
    from mergeBoxesY_frame [OF unmarked(2)] obtain b1 where s1: "s1 = st\<lparr>boxesY := b1\<rparr>" by blast
    from Cons.prems(2) unmarked(1)
    consider "boxesY st \<noteq> [] \<or> cb \<noteq> None" | "\<exists>x \<in> set xs. cellMarked st (int x) y = Inr True"
      by auto
    then show ?thesis
    proof cases
      case 1
      from mergeBoxesY_nonempty [OF unmarked(2) this] show ?thesis by simp
    next
      case 2
      then show ?thesis by (simp add: s1)
    qed
  qed
  from Cons.IH [OF b this] show ?case .
qed

lemma sweepCol_nonempty:
  assumes "sweepCol st cb x ys = Inr (st', cb')"
    and "boxesX st \<noteq> [] \<or> cb \<noteq> None \<or> (\<exists>y \<in> set ys. cellMarked st x (int y) = Inr True)"
  shows "boxesX st' \<noteq> [] \<or> cb' \<noteq> None"
  using assms
proof (induction ys arbitrary: st cb)
  case Nil
  then show ?case by simp
next
  case (Cons y ys)
  from Cons.prems(1) obtain s1 c1 where
    a: "sweepCell mergeBoxesX st cb (x, int y) = Inr (s1, c1)" and b: "sweepCol s1 c1 x ys = Inr (st', cb')"
    by (auto dest!: ebind_Inr)
  from a have "boxesX s1 \<noteq> [] \<or> c1 \<noteq> None \<or> (\<exists>y \<in> set ys. cellMarked s1 x (int y) = Inr True)"
  proof (cases rule: sweepCell_cases)
    case (marked bx)
    then show ?thesis by auto
  next
    case unmarked
    from mergeBoxesX_frame [OF unmarked(2)] obtain b1 where s1: "s1 = st\<lparr>boxesX := b1\<rparr>" by blast
    from Cons.prems(2) unmarked(1)
    consider "boxesX st \<noteq> [] \<or> cb \<noteq> None" | "\<exists>y \<in> set ys. cellMarked st x (int y) = Inr True"
      by auto
    then show ?thesis
    proof cases
      case 1
      from mergeBoxesX_nonempty [OF unmarked(2) this] show ?thesis by simp
    next
      case 2
      then show ?thesis by (simp add: s1)
    qed
  qed
  from Cons.IH [OF b this] show ?case .
qed

lemma sweepRows_nonempty:
  assumes "sweepRows st xs ys = Inr st'"
    and "boxesY st \<noteq> [] \<or> (\<exists>y \<in> set ys. \<exists>x \<in> set xs. cellMarked st (int x) (int y) = Inr True)"
  shows "boxesY st' \<noteq> []"
  using assms
proof (induction ys arbitrary: st)
  case Nil
  then show ?case by simp
next
  case (Cons y ys)
  from Cons.prems(1) obtain s1 c1 s2 where
    a: "sweepRow st None (int y) xs = Inr (s1, c1)" and b: "mergeBoxesY s1 c1 = Inr s2"
    and c: "sweepRows s2 xs ys = Inr st'"
    by (auto dest!: ebind_Inr)
  from sweepRow_frame [OF a] obtain b1 where s1: "s1 = st\<lparr>boxesY := b1\<rparr>" by blast
  from mergeBoxesY_frame [OF b] obtain b2 where s2: "s2 = s1\<lparr>boxesY := b2\<rparr>" by blast
  from Cons.prems(2)
  consider "boxesY st \<noteq> [] \<or> (\<exists>x \<in> set xs. cellMarked st (int x) (int y) = Inr True)"
    | "\<exists>y \<in> set ys. \<exists>x \<in> set xs. cellMarked st (int x) (int y) = Inr True"
    by auto
  then have "boxesY s2 \<noteq> [] \<or> (\<exists>y \<in> set ys. \<exists>x \<in> set xs. cellMarked s2 (int x) (int y) = Inr True)"
  proof cases
    case 1
    then have "boxesY st \<noteq> [] \<or> None \<noteq> (None :: bounds option) \<or> (\<exists>x \<in> set xs. cellMarked st (int x) (int y) = Inr True)"
      by blast
    from sweepRow_nonempty [OF a this] have "boxesY s1 \<noteq> [] \<or> c1 \<noteq> None" .
    from mergeBoxesY_nonempty [OF b this] show ?thesis by simp
  next
    case 2
    then show ?thesis by (simp add: s1 s2)
  qed
  from Cons.IH [OF c this] show ?case .
qed

lemma sweepCols_nonempty:
  assumes "sweepCols st ys xs = Inr st'"
    and "boxesX st \<noteq> [] \<or> (\<exists>x \<in> set xs. \<exists>y \<in> set ys. cellMarked st (int x) (int y) = Inr True)"
  shows "boxesX st' \<noteq> []"
  using assms
proof (induction xs arbitrary: st)
  case Nil
  then show ?case by simp
next
  case (Cons x xs)
  from Cons.prems(1) obtain s1 c1 s2 where
    a: "sweepCol st None (int x) ys = Inr (s1, c1)" and b: "mergeBoxesX s1 c1 = Inr s2"
    and c: "sweepCols s2 ys xs = Inr st'"
    by (auto dest!: ebind_Inr)
  from sweepCol_frame [OF a] obtain b1 where s1: "s1 = st\<lparr>boxesX := b1\<rparr>" by blast
  from mergeBoxesX_frame [OF b] obtain b2 where s2: "s2 = s1\<lparr>boxesX := b2\<rparr>" by blast
  from Cons.prems(2)
  consider "boxesX st \<noteq> [] \<or> (\<exists>y \<in> set ys. cellMarked st (int x) (int y) = Inr True)"
    | "\<exists>x \<in> set xs. \<exists>y \<in> set ys. cellMarked st (int x) (int y) = Inr True"
    by auto
  then have "boxesX s2 \<noteq> [] \<or> (\<exists>x \<in> set xs. \<exists>y \<in> set ys. cellMarked s2 (int x) (int y) = Inr True)"
  proof cases
    case 1
    then have "boxesX st \<noteq> [] \<or> None \<noteq> (None :: bounds option) \<or> (\<exists>y \<in> set ys. cellMarked st (int x) (int y) = Inr True)"
      by blast
    from sweepCol_nonempty [OF a this] have "boxesX s1 \<noteq> [] \<or> c1 \<noteq> None" .
    from mergeBoxesX_nonempty [OF b this] show ?thesis by simp
  next
    case 2
    then show ?thesis by (simp add: s1 s2)
  qed
  from Cons.IH [OF c this] show ?case .
qed

section \<open>A marked cell is always in sight of the sweeps\<close>

lemma gridPush_length:
  assumes "gridPush sel center brng rng bound i g = Some r"
  shows "\<forall>g'. r = Inr g' \<longrightarrow> length g \<le> length g'"
proof (rule gridPush.raw_induct
    [where P = "\<lambda>sel center brng rng bound i g r. \<forall>g'. r = Inr g' \<longrightarrow> length g \<le> length g'", OF _ assms])
  fix f sel center brng rng bound i g r
  assume IH: "\<And>sel center brng rng bound i g r. f sel center brng rng bound i g = Some r
      \<Longrightarrow> \<forall>g'. r = Inr g' \<longrightarrow> length g \<le> length (g' :: jsnum list)"
    and step: "(if js_lt (ToNumber (js_nth g (int i - 2))) bound
      then case gridLine sel center brng (js_mul rng (Fin (real i))) of
             Inl e \<Rightarrow> Some (Inl e)
           | Inr v \<Rightarrow> f sel center brng rng bound (i + 1) (g @ [v])
      else Some (Inr g)) = Some r"
  show "\<forall>g'. r = Inr g' \<longrightarrow> length g \<le> length g'"
  proof (cases "js_lt (ToNumber (js_nth g (int i - 2))) bound")
    case True
    show ?thesis
    proof (cases "gridLine sel center brng (js_mul rng (Fin (real i)))")
      case (Inl e)
      with True step show ?thesis by auto
    next
      case (Inr v)
      with True step have "f sel center brng rng bound (i + 1) (g @ [v]) = Some r" by simp
      from IH [OF this] show ?thesis by auto
    qed
  next
    case False
    with step show ?thesis by auto
  qed
qed

lemma gridUnshift_length:
  assumes "gridUnshift sel center brng rng bound i g = Some r"
  shows "\<forall>g'. r = Inr g' \<longrightarrow> length g \<le> length g'"
proof (rule gridUnshift.raw_induct
    [where P = "\<lambda>sel center brng rng bound i g r. \<forall>g'. r = Inr g' \<longrightarrow> length g \<le> length g'", OF _ assms])
  fix f sel center brng rng bound i g r
  assume IH: "\<And>sel center brng rng bound i g r. f sel center brng rng bound i g = Some r
      \<Longrightarrow> \<forall>g'. r = Inr g' \<longrightarrow> length g \<le> length (g' :: jsnum list)"
    and step: "(if js_gt (ToNumber (js_nth g 1)) bound
      then case gridLine sel center brng (js_mul rng (Fin (real i))) of
             Inl e \<Rightarrow> Some (Inl e)
           | Inr v \<Rightarrow> f sel center brng rng bound (i + 1) (v # g)
      else Some (Inr g)) = Some r"
  show "\<forall>g'. r = Inr g' \<longrightarrow> length g \<le> length g'"
  proof (cases "js_gt (ToNumber (js_nth g 1)) bound")
    case True
    show ?thesis
    proof (cases "gridLine sel center brng (js_mul rng (Fin (real i)))")
      case (Inl e)
      with True step show ?thesis by auto
    next
      case (Inr v)
      with True step have "f sel center brng rng bound (i + 1) (v # g) = Some r" by simp
      from IH [OF this] show ?thesis by auto
    qed
  next
    case False
    with step show ?thesis by auto
  qed
qed


lemma buildGrid_Inr:
  assumes "buildGrid st vs rng = Some (Inr st')"
  obtains routeBounds c n1 ne lats0 sw lats e1 lngs0 lngs where
    "extendAll emptyBounds vs = Inr routeBounds" "getCenter routeBounds = Inr c"
    "gridLine lat c (Fin 0) rng = Inr n1" "deref (northEast routeBounds) = Inr ne"
    "gridPush lat c (Fin 0) rng (lat ne) 2 (latGrid st @ [lat c, n1]) = Some (Inr lats0)"
    "deref (southWest routeBounds) = Inr sw"
    "gridUnshift lat c (Fin 180) rng (lat sw) 1 lats0 = Some (Inr lats)"
    "gridLine lng c (Fin 90) rng = Inr e1"
    "gridPush lng c (Fin 90) rng (lng ne) 2 (lngGrid st @ [lng c, e1]) = Some (Inr lngs0)"
    "gridUnshift lng c (Fin 270) rng (lng sw) 1 lngs0 = Some (Inr lngs)"
    "st' = st\<lparr>latGrid := lats, lngGrid := lngs,
              grid := Some (replicate (length lngs) (newRow (length lats)))\<rparr>"
  using assms unfolding buildGrid_def
  apply -
  apply (drule obind_Some, clarify)+
  apply (simp only: option.inject sum.inject)
  done

lemma buildGrid_shape:
  assumes "buildGrid st vs rng = Some (Inr st')"
  shows "grid st' = Some (replicate (length (lngGrid st')) (newRow (length (latGrid st')))) \<and>
         2 \<le> length (latGrid st') \<and> 2 \<le> length (lngGrid st')"
proof -
  from assms obtain c :: latlng and n1 and ne :: latlng and lats0 and sw :: latlng
      and lats e1 lngs0 lngs where
    a: "gridPush lat c (Fin 0) rng (lat ne) 2 (latGrid st @ [lat c, n1]) = Some (Inr lats0)"
    and b: "gridUnshift lat c (Fin 180) rng (lat sw) 1 lats0 = Some (Inr lats)"
    and c: "gridPush lng c (Fin 90) rng (lng ne) 2 (lngGrid st @ [lng c, e1]) = Some (Inr lngs0)"
    and d: "gridUnshift lng c (Fin 270) rng (lng sw) 1 lngs0 = Some (Inr lngs)"
    and e: "st' = st\<lparr>latGrid := lats, lngGrid := lngs,
                      grid := Some (replicate (length lngs) (newRow (length lats)))\<rparr>"
    by (rule buildGrid_Inr)
  from gridPush_length [OF a] gridUnshift_length [OF b] have "2 \<le> length lats" by auto
  moreover from gridPush_length [OF c] gridUnshift_length [OF d] have "2 \<le> length lngs" by auto
  ultimately show ?thesis by (simp add: e)
qed

lemma scanCell_bounds:
  "0 \<le> x \<Longrightarrow> x \<le> int (length g) \<Longrightarrow> x \<le> scanCell g v x \<and> scanCell g v x \<le> int (length g)"
proof (induction g v x rule: scanCell.induct)
  case (1 g v x)
  show ?case
  proof (cases "js_lt (ToNumber (js_nth g x)) v")
    case True
    from js_lt_nth [OF True] have "x + 1 \<le> int (length g)" by simp
    with "1.IH" [OF True] "1.prems" True show ?thesis
      by (subst (1 2) scanCell.simps) auto
  next
    case False
    with "1.prems" show ?thesis by (subst (1 2) scanCell.simps) simp
  qed
qed

lemma setCell_marks: "setCell st x y = Inr st' \<Longrightarrow> cellMarked st' x y = Inr True"
  by (auto simp: setCell_def cellMarked_def ebind_def deref_def setRow_def split: option.splits if_splits)

lemma grows_marked: "grows st st' \<Longrightarrow> cellMarked st x y = Inr True \<Longrightarrow> cellMarked st' x y = Inr True"
proof -
  assume g: "grows st st'" and m: "cellMarked st x y = Inr True"
  from m obtain g1 where g1: "grid st = Some g1" "0 \<le> x" "x < int (length g1)" "y \<in> marked (g1 ! nat x)"
    by (auto simp: cellMarked_def ebind_def deref_def split: option.splits if_splits)
  from g g1(1) obtain g2 where g2: "grid st' = Some g2" "length g2 = length g1"
    "\<forall>i < length g1. marked (g1 ! i) \<subseteq> marked (g2 ! i)"
    by (auto simp: grows_def split: option.splits)
  from g1(2,3) have "nat x < length g1" by simp
  with g2(3) g1(4) have "y \<in> marked (g2 ! nat x)" by blast
  with g2 g1 show ?thesis by (simp add: cellMarked_def ebind_def deref_def)
qed

lemma markCell_marks:
  assumes "markCell st (x, y) = Inr st'"
  shows "cellMarked st' x y = Inr True \<and> cellMarked st' x (y + 1) = Inr True"
proof -
  from assms obtain s1 s2 s3 s4 s5 s6 s7 s8 where
    "setCell st (x - 1) (y - 1) = Inr s1" "setCell s1 x (y - 1) = Inr s2"
    "setCell s2 (x + 1) (y - 1) = Inr s3" "setCell s3 (x - 1) y = Inr s4"
    and s5: "setCell s4 x y = Inr s5" and s6: "setCell s5 (x + 1) y = Inr s6"
    and s7: "setCell s6 (x - 1) (y + 1) = Inr s7" and s8: "setCell s7 x (y + 1) = Inr s8"
    and s9: "setCell s8 (x + 1) (y + 1) = Inr st'"
    unfolding markCell_def Let_def fst_conv snd_conv
    apply -
    apply (drule ebind_Inr, clarify)+
    apply blast
    done
  have g58: "grows s5 s8"
    using setCell_grows [OF s6] setCell_grows [OF s7] setCell_grows [OF s8]
    by (blast intro: grows_trans)
  have "cellMarked s8 x y = Inr True" using g58 setCell_marks [OF s5] by (rule grows_marked)
  then have "cellMarked st' x y = Inr True" using setCell_grows [OF s9] by (blast intro: grows_marked)
  moreover have "cellMarked st' x (y + 1) = Inr True"
    using setCell_grows [OF s9] setCell_marks [OF s8] by (rule grows_marked)
  ultimately show ?thesis ..
qed

lemma toPairs_length: "toPairs bs = Inr ps \<Longrightarrow> length ps = length bs"
  by (induction bs arbitrary: ps) (auto dest!: ebind_Inr)

lemma mergeIntersectingCells_Inr:
  assumes "mergeIntersectingCells st = Inr st'"
  obtains r rs s where "grid st = Some (r # rs)"
    "sweepRows st [0..<length (r # rs)] [0..<rowLength r] = Inr s"
    "sweepCols s [0..<rowLength r] [0..<length (r # rs)] = Inr st'"
  using assms unfolding mergeIntersectingCells_def
  by (auto simp: deref_def dest!: ebind_Inr split: option.splits list.splits)

lemma box_nonempty:
  assumes "box st path rng = Some (Inr (bs, st'))"
  shows "bs \<noteq> []"
proof -
  from assms obtain st1 st2 where
    a: "buildGrid initialRouteBoxer path rng = Some (Inr st1)"
    and b: "findIntersectingCells st1 path = Inr st2"
    and c: "mergeIntersectingCells st2 = Inr st'"
    and d: "bs = (if length (boxesX st') \<le> length (boxesY st') then boxesX st' else boxesY st')"
    by (rule box_Inr)
  from b obtain v0 vs' s1 where
    m: "markCell st1 (getCellCoords st1 v0) = Inr s1"
    and w: "walk s1 v0 (getCellCoords st1 v0) vs' = Inr st2"
    by (rule findIntersectingCells_Inr)
  define x0 where "x0 = fst (getCellCoords st1 v0)"
  define y0 where "y0 = snd (getCellCoords st1 v0)"
  define m1 where "m1 = length (latGrid st1)"
  from buildGrid_shape [OF a] have g1: "grid st1 = Some (replicate (length (lngGrid st1)) (newRow m1))"
    and m2: "2 \<le> m1" and n2: "2 \<le> length (lngGrid st1)"
    by (simp_all add: m1_def)
  have "0 \<le> scanCell (latGrid st1) (lat v0) 0 \<and> scanCell (latGrid st1) (lat v0) 0 \<le> int m1"
    unfolding m1_def by (rule scanCell_bounds) simp_all
  then have y0: "- 1 \<le> y0" "y0 < int m1" by (simp_all add: y0_def getCellCoords_def)
  from m have "markCell st1 (x0, y0) = Inr s1" by (simp add: x0_def y0_def)
  from markCell_marks [OF this]
  have mk: "cellMarked s1 x0 y0 = Inr True" "cellMarked s1 x0 (y0 + 1) = Inr True" by simp_all
  define yv where "yv = (if 0 \<le> y0 then y0 else y0 + 1)"
  have yv: "0 \<le> yv" "yv < int m1" using y0 m2 by (auto simp: yv_def)
  have "cellMarked s1 x0 yv = Inr True" using mk by (simp add: yv_def)
  with walk_grows [OF w] have v2: "cellMarked st2 x0 yv = Inr True" by (rule grows_marked)
  have g12: "grows st1 st2" using markCell_grows [OF m] walk_grows [OF w] by (rule grows_trans)
  from c obtain r rs s where
    g2: "grid st2 = Some (r # rs)"
    and sr: "sweepRows st2 [0..<length (r # rs)] [0..<rowLength r] = Inr s"
    and sc: "sweepCols s [0..<rowLength r] [0..<length (r # rs)] = Inr st'"
    by (rule mergeIntersectingCells_Inr)
  from g12 g1 g2 have rows: "\<forall>i < length (lngGrid st1). rowLength (newRow m1) \<le> rowLength ((r # rs) ! i)"
    by (simp add: grows_def)
  from n2 have "0 < length (lngGrid st1)" by linarith
  with rows have "rowLength (newRow m1) \<le> rowLength ((r # rs) ! 0)" by blast
  then have len: "m1 \<le> rowLength r" by (simp add: newRow_def)
  from v2 g2 have x0: "0 \<le> x0" "x0 < int (length (r # rs))"
    by (auto simp: cellMarked_def ebind_def deref_def split: if_splits)
  have vis: "\<exists>y \<in> set [0..<rowLength r]. \<exists>x \<in> set [0..<length (r # rs)]. cellMarked st2 (int x) (int y) = Inr True"
  proof (intro bexI)
    show "cellMarked st2 (int (nat x0)) (int (nat yv)) = Inr True" using v2 x0 yv by simp
    have "nat x0 < length (r # rs)" using x0 by linarith
    then show "nat x0 \<in> set [0..<length (r # rs)]" by (simp only: set_upt atLeastLessThan_iff) simp
    have "nat yv < rowLength r" using yv len by linarith
    then show "nat yv \<in> set [0..<rowLength r]" by (simp only: set_upt atLeastLessThan_iff) simp
  qed
  then have "boxesY st2 \<noteq> [] \<or> (\<exists>y \<in> set [0..<rowLength r]. \<exists>x \<in> set [0..<length (r # rs)]. cellMarked st2 (int x) (int y) = Inr True)"
    by blast
  from sweepRows_nonempty [OF sr this] have ny: "boxesY s \<noteq> []" .
  from sweepRows_frame [OF sr] obtain b1 where s: "s = st2\<lparr>boxesY := b1\<rparr>" by blast
  from vis have "boxesX s \<noteq> [] \<or> (\<exists>x \<in> set [0..<length (r # rs)]. \<exists>y \<in> set [0..<rowLength r]. cellMarked s (int x) (int y) = Inr True)"
    unfolding s cellMarked_boxes by blast
  from sweepCols_nonempty [OF sc this] have nx: "boxesX st' \<noteq> []" .
  from sweepCols_frame [OF sc] obtain b2 where "st' = s\<lparr>boxesX := b2\<rparr>" by blast
  with ny have "boxesY st' \<noteq> []" by simp
  with nx d show ?thesis by simp
qed


section \<open>The two sweeps do not read each other's list\<close>

lemma ebind_map_sum: "ebind (map_sum id f m) g = ebind m (\<lambda>x. g (f x))"
  by (cases m) (simp_all add: ebind_def)

lemma map_sum_ebind: "map_sum id f (ebind m g) = ebind m (\<lambda>x. map_sum id f (g x))"
  by (cases m) (simp_all add: ebind_def)

lemma getCellBounds_boxes [simp]:
  "getCellBounds (st\<lparr>boxesY := b\<rparr>) cell = getCellBounds st cell"
  "getCellBounds (st\<lparr>boxesX := b\<rparr>) cell = getCellBounds st cell"
  by (simp_all add: getCellBounds_def)

lemma mergeBoxesX_boxesY:
  "mergeBoxesX (st\<lparr>boxesY := b\<rparr>) cb = map_sum id (\<lambda>s. s\<lparr>boxesY := b\<rparr>) (mergeBoxesX st cb)"
  by (cases cb; cases "mergeBoxes matchX (boxesX st) (the cb)")
     (simp_all add: mergeBoxesX_def ebind_def)

lemma sweepCell_boxesY:
  "sweepCell mergeBoxesX (st\<lparr>boxesY := b\<rparr>) cb cell
     = map_sum id (\<lambda>(s, c). (s\<lparr>boxesY := b\<rparr>, c)) (sweepCell mergeBoxesX st cb cell)"
  unfolding sweepCell_def mergeBoxesX_boxesY
  by (auto simp: ebind_def split: sum.splits option.splits)

lemma sweepCol_boxesY:
  "sweepCol (st\<lparr>boxesY := b\<rparr>) cb x ys
     = map_sum id (\<lambda>(s, c). (s\<lparr>boxesY := b\<rparr>, c)) (sweepCol st cb x ys)"
proof (induction ys arbitrary: st cb)
  case Nil
  show ?case by simp
next
  case (Cons y ys)
  show ?case
    by (cases "sweepCell mergeBoxesX st cb (x, int y)")
       (auto simp: sweepCell_boxesY ebind_def Cons.IH)
qed

lemma sweepCols_boxesY:
  "sweepCols (st\<lparr>boxesY := b\<rparr>) ys xs = map_sum id (\<lambda>s. s\<lparr>boxesY := b\<rparr>) (sweepCols st ys xs)"
proof (induction xs arbitrary: st)
  case Nil
  show ?case by simp
next
  case (Cons x xs)
  show ?case
  proof (cases "sweepCol st None (int x) ys")
    case (Inl e)
    then show ?thesis by (simp add: sweepCol_boxesY ebind_def)
  next
    case (Inr p)
    obtain s1 c1 where p: "p = (s1, c1)" by (cases p)
    show ?thesis
      by (cases "mergeBoxesX s1 c1")
         (simp_all add: sweepCol_boxesY Inr p ebind_def mergeBoxesX_boxesY Cons.IH)
  qed
qed



section \<open>The grid of the route around a corner\<close>

text \<open>
  Rhumb lines from a point of the equator to the north, the south, the east and the
  west, for a distance \<open>t\<close> short of a quarter of a turn: the destination is
  \<open>gridStep t\<close> degrees away along one axis, and on the same line of the other.
\<close>

lemma js_div_zero: "q \<noteq> 0 \<Longrightarrow> js_div (Fin 0) (Fin q) = Fin 0"
  by simp

lemma tan_quarter_gt: "0 < x \<Longrightarrow> x < pi / 4 \<Longrightarrow> 1 < tan (x + pi / 4)"
proof -
  assume x: "0 < x" "x < pi / 4"
  have "tan (pi / 4) < tan (x + pi / 4)"
    by (rule tan_monotone) (use x in auto)
  then show ?thesis by (simp add: tan_45)
qed

lemma tan_quarter_lt: "0 < x \<Longrightarrow> x < pi / 4 \<Longrightarrow> 0 < tan (pi / 4 - x) \<and> tan (pi / 4 - x) < 1"
proof -
  assume x: "0 < x" "x < pi / 4"
  have "tan (pi / 4 - x) < tan (pi / 4)"
    by (rule tan_monotone) (use x in auto)
  moreover have "0 < tan (pi / 4 - x)"
    by (rule tan_gt_zero) (use x in auto)
  ultimately show ?thesis by (simp add: tan_45)
qed

lemma cos_quarter_pos: "\<bar>x\<bar> < pi / 4 \<Longrightarrow> 0 < cos (x + pi / 4)"
  by (rule cos_gt_zero_pi) auto

lemma lonSum_north:
  assumes "0 < t" "t / 6371 < pi / 2"
  shows "rhumbLonSum origin (Fin 0) (Fin t) = Fin pi"
proof -
  define d where "d = t / 6371"
  have d: "0 < d" "d < pi / 2" using assms by (simp_all add: d_def)
  have c: "cos (d / 2 + pi / 4) \<noteq> 0" using cos_quarter_pos [of "d / 2"] d by auto
  have t1: "1 < tan (d / 2 + pi / 4)" using tan_quarter_gt [of "d / 2"] d by simp
  then have l: "0 < ln (tan (d / 2 + pi / 4))" by simp
  define q where "q = (if 1 / 10 ^ 10 < \<bar>d\<bar> then d / ln (tan (d / 2 + pi / 4)) else 1)"
  have q: "q \<noteq> 0" using d l by (simp add: q_def)
  have e1: "toRad (Fin 0) = Fin 0" by (simp add: toRad_def Math_PI_def)
  have e2: "js_div (parseFloat (Fin t)) (Fin 6371) = Fin d" by (simp add: parseFloat_def d_def)
  have e3: "js_add (Fin 0) (js_mul (Fin d) (Math_cos (Fin 0))) = Fin d" by simp
  have e4: "Math_tan (js_add (js_div (Fin d) (Fin 2)) (js_div Math_PI (Fin 4))) = Fin (tan (d / 2 + pi / 4))"
    using c by (simp add: Math_PI_def)
  have e5: "Math_tan (js_add (js_div (Fin 0) (Fin 2)) (js_div Math_PI (Fin 4))) = Fin 1"
    by (simp add: Math_PI_def cos_45 tan_45)
  have e6: "Math_log (js_div (Fin (tan (d / 2 + pi / 4))) (Fin 1)) = Fin (ln (tan (d / 2 + pi / 4)))"
    using t1 by simp
  have e7: "js_sub (Fin d) (Fin 0) = Fin d" by (simp add: js_sub_def)
  have e8: "(if js_gt (Math_abs (Fin d)) (Fin (1 / 10 ^ 10))
             then js_div (Fin d) (Fin (ln (tan (d / 2 + pi / 4)))) else Math_cos (Fin 0)) = Fin q"
    using l by (simp add: js_gt_def q_def)
  have e9: "js_div (js_mul (Fin d) (Math_sin (Fin 0))) (Fin q) = Fin 0" using q by simp
  have e10: "js_add (js_add (Fin 0) (Fin 0)) Math_PI = Fin pi" by (simp add: Math_PI_def)
  show ?thesis
    unfolding rhumbLonSum_def origin_def Let_def
    by (simp only: latlng.simps e1 e2 e3 e4 e5 e6 e7 e8 e9 e10)
qed

lemma lonSum_south:
  assumes "0 < t" "t / 6371 < pi / 2"
  shows "rhumbLonSum origin (Fin 180) (Fin t) = Fin pi"
proof -
  define d where "d = t / 6371"
  have d: "0 < d" "d < pi / 2" using assms by (simp_all add: d_def)
  have c: "cos (- d / 2 + pi / 4) \<noteq> 0" using cos_quarter_pos [of "- d / 2"] d by auto
  have t1: "0 < tan (- d / 2 + pi / 4)" "tan (- d / 2 + pi / 4) < 1"
    using tan_quarter_lt [of "d / 2"] d by (simp_all add: add.commute)
  then have l: "ln (tan (- d / 2 + pi / 4)) < 0" by simp
  define q where "q = (if 1 / 10 ^ 10 < \<bar>d\<bar> then - d / ln (tan (- d / 2 + pi / 4)) else 1)"
  have q: "q \<noteq> 0" using d l by (simp add: q_def)
  have e1: "toRad (Fin 0) = Fin 0" "toRad (Fin 180) = Fin pi" by (simp_all add: toRad_def Math_PI_def)
  have e2: "js_div (parseFloat (Fin t)) (Fin 6371) = Fin d" by (simp add: parseFloat_def d_def)
  have e3: "js_add (Fin 0) (js_mul (Fin d) (Math_cos (Fin pi))) = Fin (- d)" by simp
  have e4: "Math_tan (js_add (js_div (Fin (- d)) (Fin 2)) (js_div Math_PI (Fin 4))) = Fin (tan (- d / 2 + pi / 4))"
    using c by (simp add: Math_PI_def)
  have e5: "Math_tan (js_add (js_div (Fin 0) (Fin 2)) (js_div Math_PI (Fin 4))) = Fin 1"
    by (simp add: Math_PI_def cos_45 tan_45)
  have e6: "Math_log (js_div (Fin (tan (- d / 2 + pi / 4))) (Fin 1)) = Fin (ln (tan (- d / 2 + pi / 4)))"
    using t1 by simp
  have e7: "js_sub (Fin (- d)) (Fin 0) = Fin (- d)" by (simp add: js_sub_def)
  have e8: "(if js_gt (Math_abs (Fin (- d))) (Fin (1 / 10 ^ 10))
             then js_div (Fin (- d)) (Fin (ln (tan (- d / 2 + pi / 4)))) else Math_cos (Fin 0)) = Fin q"
    using l by (simp add: js_gt_def q_def)
  have e9: "js_div (js_mul (Fin d) (Math_sin (Fin pi))) (Fin q) = Fin 0" using q by simp
  have e10: "js_add (js_add (Fin 0) (Fin 0)) Math_PI = Fin pi" by (simp add: Math_PI_def)
  show ?thesis
    unfolding rhumbLonSum_def origin_def Let_def
    by (simp only: latlng.simps e1 e2 e3 e4 e5 e6 e7 e8 e9 e10)
qed

lemma cos_270: "cos (3 * pi / 2) = 0"
  using cos_3over2_pi by (simp add: mult.commute)

lemma sin_270: "sin (3 * pi / 2) = - 1"
  using sin_3over2_pi by (simp add: mult.commute)

lemma toRad_270: "toRad (Fin 270) = Fin (3 * pi / 2)"
  by (simp add: toRad_def Math_PI_def)

lemma lonSum_east:
  "rhumbLonSum origin (Fin 90) (Fin t) = Fin (t / 6371 + pi)"
proof -
  define d where "d = t / 6371"
  have e1: "toRad (Fin 0) = Fin 0" "toRad (Fin 90) = Fin (pi / 2)" by (simp_all add: toRad_def Math_PI_def)
  have e2: "js_div (parseFloat (Fin t)) (Fin 6371) = Fin d" by (simp add: parseFloat_def d_def)
  have e3: "js_add (Fin 0) (js_mul (Fin d) (Math_cos (Fin (pi / 2)))) = Fin 0" by simp
  have e5: "Math_tan (js_add (js_div (Fin 0) (Fin 2)) (js_div Math_PI (Fin 4))) = Fin 1"
    by (simp add: Math_PI_def cos_45 tan_45)
  have e6: "Math_log (js_div (Fin 1) (Fin 1)) = Fin 0" by simp
  have e7: "js_sub (Fin 0) (Fin 0) = Fin 0" by (simp add: js_sub_def)
  have e8: "(if js_gt (Math_abs (Fin 0)) (Fin (1 / 10 ^ 10))
             then js_div (Fin 0) (Fin 0) else Math_cos (Fin 0)) = Fin 1"
    by (simp add: js_gt_def)
  have e9: "js_div (js_mul (Fin d) (Math_sin (Fin (pi / 2)))) (Fin 1) = Fin d" by simp
  have e10: "js_add (js_add (Fin 0) (Fin d)) Math_PI = Fin (d + pi)" by (simp add: Math_PI_def)
  have "rhumbLonSum origin (Fin 90) (Fin t) = Fin (d + pi)"
    unfolding rhumbLonSum_def origin_def Let_def
    by (simp only: latlng.simps e1 e2 e3 e5 e6 e7 e8 e9 e10)
  then show ?thesis by (simp only: d_def)
qed

lemma lonSum_west:
  "rhumbLonSum origin (Fin 270) (Fin t) = Fin (- (t / 6371) + pi)"
proof -
  define d where "d = t / 6371"
  have e1: "toRad (Fin 0) = Fin 0" by (simp add: toRad_def Math_PI_def)
  have e2: "js_div (parseFloat (Fin t)) (Fin 6371) = Fin d" by (simp add: parseFloat_def d_def)
  have e3: "js_add (Fin 0) (js_mul (Fin d) (Math_cos (Fin (3 * pi / 2)))) = Fin 0"
    by (simp add: cos_270)
  have e5: "Math_tan (js_add (js_div (Fin 0) (Fin 2)) (js_div Math_PI (Fin 4))) = Fin 1"
    by (simp add: Math_PI_def cos_45 tan_45)
  have e6: "Math_log (js_div (Fin 1) (Fin 1)) = Fin 0" by simp
  have e7: "js_sub (Fin 0) (Fin 0) = Fin 0" by (simp add: js_sub_def)
  have e8: "(if js_gt (Math_abs (Fin 0)) (Fin (1 / 10 ^ 10))
             then js_div (Fin 0) (Fin 0) else Math_cos (Fin 0)) = Fin 1"
    by (simp add: js_gt_def)
  have e9: "js_div (js_mul (Fin d) (Math_sin (Fin (3 * pi / 2)))) (Fin 1) = Fin (- d)"
    by (simp add: sin_270)
  have e10: "js_add (js_add (Fin 0) (Fin (- d))) Math_PI = Fin (- d + pi)" by (simp add: Math_PI_def)
  have "rhumbLonSum origin (Fin 270) (Fin t) = Fin (- d + pi)"
    unfolding rhumbLonSum_def origin_def Let_def
    by (simp only: latlng.simps e1 toRad_270 e2 e3 e5 e6 e7 e8 e9 e10)
  then show ?thesis by (simp only: d_def)
qed

lemma wrap_lon: "0 \<le> x \<Longrightarrow> x < 2 * pi \<Longrightarrow>
  js_sub (js_mod (Fin x) (js_mul (Fin 2) Math_PI)) Math_PI = Fin (x - pi)"
proof -
  assume x: "0 \<le> x" "x < 2 * pi"
  then have "0 \<le> x / (2 * pi)" "x / (2 * pi) < 1" by simp_all
  then have "trunc (x / (2 * pi)) = 0" by (simp add: trunc_def floor_eq_iff)
  then show ?thesis by (simp add: Math_PI_def js_sub_def)
qed

lemma lat2_north: "0 < t \<Longrightarrow> t / 6371 < pi / 2 \<Longrightarrow> rhumbLat2 origin (Fin 0) (Fin t) = Fin (t / 6371)"
  by (simp add: rhumbLat2_def origin_def toRad_def Math_PI_def parseFloat_def js_gt_def Let_def)

lemma lat2_south: "0 < t \<Longrightarrow> t / 6371 < pi / 2 \<Longrightarrow> rhumbLat2 origin (Fin 180) (Fin t) = Fin (- (t / 6371))"
  by (simp add: rhumbLat2_def origin_def toRad_def Math_PI_def parseFloat_def js_gt_def Let_def)

lemma lat2_east: "rhumbLat2 origin (Fin 90) (Fin t) = Fin 0"
  by (simp add: rhumbLat2_def origin_def toRad_def Math_PI_def parseFloat_def js_gt_def Let_def)

lemma lat2_west: "rhumbLat2 origin (Fin 270) (Fin t) = Fin 0"
  unfolding rhumbLat2_def origin_def Let_def toRad_270
  by (simp add: toRad_def Math_PI_def parseFloat_def js_gt_def cos_270)

lemma toDeg_Fin: "toDeg (Fin x) = Fin (x * 180 / pi)"
  by (simp add: toDeg_def Math_PI_def)

lemma LatLng_Fin: "LatLng (JNum (Fin x)) (JNum (Fin y)) JUndefined = Inr \<lparr>lat = Fin x, lng = Fin y, alt = None\<rparr>"
  by (simp add: LatLng_def isNaN_def)

lemma gridLine_north:
  assumes "0 < t" "t / 6371 < pi / 2"
  shows "gridLine lat origin (Fin 0) (Fin t) = Inr (Fin (gridStep t))"
proof -
  have "js_sub (js_mod (Fin pi) (js_mul (Fin 2) Math_PI)) Math_PI = Fin (pi - pi)"
    by (rule wrap_lon) simp_all
  then show ?thesis
    unfolding gridLine_def rhumbDestinationPoint_def Let_def lonSum_north [OF assms] lat2_north [OF assms]
    by (simp add: ebind_def deref_def toDeg_Fin LatLng_Fin gridStep_def)
qed

lemma gridLine_south:
  assumes "0 < t" "t / 6371 < pi / 2"
  shows "gridLine lat origin (Fin 180) (Fin t) = Inr (Fin (- gridStep t))"
proof -
  have "js_sub (js_mod (Fin pi) (js_mul (Fin 2) Math_PI)) Math_PI = Fin (pi - pi)"
    by (rule wrap_lon) simp_all
  then show ?thesis
    unfolding gridLine_def rhumbDestinationPoint_def Let_def lonSum_south [OF assms] lat2_south [OF assms]
    by (simp add: ebind_def deref_def toDeg_Fin LatLng_Fin gridStep_def)
qed

lemma gridLine_east:
  assumes "0 < t" "t / 6371 < pi / 2"
  shows "gridLine lng origin (Fin 90) (Fin t) = Inr (Fin (gridStep t))"
proof -
  have "js_sub (js_mod (Fin (t / 6371 + pi)) (js_mul (Fin 2) Math_PI)) Math_PI = Fin (t / 6371 + pi - pi)"
    by (rule wrap_lon) (use assms in simp_all)
  then show ?thesis
    unfolding gridLine_def rhumbDestinationPoint_def Let_def lonSum_east lat2_east
    by (simp add: ebind_def deref_def toDeg_Fin LatLng_Fin gridStep_def)
qed

lemma gridLine_west:
  assumes "0 < t" "t / 6371 < pi / 2"
  shows "gridLine lng origin (Fin 270) (Fin t) = Inr (Fin (- gridStep t))"
proof -
  have "js_sub (js_mod (Fin (- (t / 6371) + pi)) (js_mul (Fin 2) Math_PI)) Math_PI = Fin (- (t / 6371) + pi - pi)"
    by (rule wrap_lon) (use assms in simp_all)
  then show ?thesis
    unfolding gridLine_def rhumbDestinationPoint_def Let_def lonSum_west lat2_west
    by (simp add: ebind_def deref_def toDeg_Fin LatLng_Fin gridStep_def)
qed

text \<open>
  \<^verbatim>\<open>buildGrid_\<close> on the route: two lines beyond the centre in each direction are enough
  to pass the bounds of the route, and one more is added on each side.
\<close>

lemma gridStep_double: "gridStep (r * 2) = 2 * gridStep r"
  by (simp add: gridStep_def)

lemma gridStep_pos: "0 < r \<Longrightarrow> 0 < gridStep r"
  by (simp add: gridStep_def)

lemma gridPush_two:
  assumes l2: "gridLine sel c brng (Fin (r * 2)) = Inr (Fin (2 * s))"
    and a: "0 < a" "a < s"
  shows "gridPush sel c brng (Fin r) (Fin a) 2 [Fin 0, Fin s] = Some (Inr [Fin 0, Fin s, Fin (2 * s)])"
proof -
  have "gridPush sel c brng (Fin r) (Fin a) 3 [Fin 0, Fin s, Fin (2 * s)] = Some (Inr [Fin 0, Fin s, Fin (2 * s)])"
    using a by (subst gridPush.simps) (simp add: js_nth_def)
  then show ?thesis
    using a l2 by (subst gridPush.simps) (simp add: js_nth_def)
qed

lemma gridUnshift_two:
  assumes l1: "gridLine sel c brng (Fin r) = Inr (Fin (- s))"
    and l2: "gridLine sel c brng (Fin (r * 2)) = Inr (Fin (- (2 * s)))"
    and a: "0 < a" "a < s"
  shows "gridUnshift sel c brng (Fin r) (Fin (- a)) 1 [Fin 0, Fin s, Fin (2 * s)] = Some (Inr (lines5 s))"
proof -
  have 3: "gridUnshift sel c brng (Fin r) (Fin (- a)) (1 + 1 + 1) (lines5 s) = Some (Inr (lines5 s))"
    using a by (subst gridUnshift.simps) (simp add: js_nth_def js_gt_def lines5_def)
  have 2: "gridUnshift sel c brng (Fin r) (Fin (- a)) (1 + 1) [Fin (- s), Fin 0, Fin s, Fin (2 * s)] = Some (Inr (lines5 s))"
    using a l2 3 by (subst gridUnshift.simps) (simp add: js_nth_def js_gt_def lines5_def)
  show ?thesis
    using a l1 2 by (subst gridUnshift.simps) (simp add: js_nth_def js_gt_def)
qed

lemma buildGrid_eval:
  assumes "extendAll emptyBounds vs = Inr \<lparr>southWest = Some sw, northEast = Some ne\<rparr>"
    "getCenter \<lparr>southWest = Some sw, northEast = Some ne\<rparr> = Inr c"
    "gridLine lat c (Fin 0) rng = Inr n1"
    "gridPush lat c (Fin 0) rng (lat ne) 2 (latGrid st @ [lat c, n1]) = Some (Inr lats0)"
    "gridUnshift lat c (Fin 180) rng (lat sw) 1 lats0 = Some (Inr lats)"
    "gridLine lng c (Fin 90) rng = Inr e1"
    "gridPush lng c (Fin 90) rng (lng ne) 2 (lngGrid st @ [lng c, e1]) = Some (Inr lngs0)"
    "gridUnshift lng c (Fin 270) rng (lng sw) 1 lngs0 = Some (Inr lngs)"
  shows "buildGrid st vs rng = Some (Inr (st\<lparr>latGrid := lats, lngGrid := lngs,
           grid := Some (replicate (length lngs) (newRow (length lats)))\<rparr>))"
  unfolding buildGrid_def using assms by (simp add: obind_def deref_def)

lemma toLatLngs_cornerRoute:
  "toLatLngs (cornerRoute a) = Inr [corner (- a) (- a), corner (- a) a, corner a a]"
  by (simp add: cornerRoute_def corner_def js_index_def LatLng_Fin ebind_def)

lemma extendAll_cornerRoute:
  assumes "0 < a"
  shows "extendAll emptyBounds [corner (- a) (- a), corner (- a) a, corner a a]
    = Inr \<lparr>southWest = Some (corner (- a) (- a)), northEast = Some (corner a a)\<rparr>"
  using assms
  by (simp add: boundsExtend_def emptyBounds_def corner_def LatLng_Fin ebind_def Math_min_def Math_max_def)

lemma buildGrid_cornerRoute:
  assumes a: "0 < a" "a < gridStep r" and r: "0 < r" "r * 2 / 6371 < pi / 2"
  shows "buildGrid initialRouteBoxer [corner (- a) (- a), corner (- a) a, corner a a] (Fin r)
    = Some (Inr (emptyGrid5 (gridStep r)))"
proof -
  let ?s = "gridStep r"
  have r1: "r / 6371 < pi / 2" using r by simp
  have r2: "0 < r * 2" using r by simp
  have c: "getCenter \<lparr>southWest = Some (corner (- a) (- a)), northEast = Some (corner a a)\<rparr> = Inr origin"
    by (simp add: getCenter_def deref_def ebind_def corner_def LatLng_Fin origin_def)
  have n1: "gridLine lat origin (Fin 0) (Fin r) = Inr (Fin ?s)" using r(1) r1 by (rule gridLine_north)
  have n2: "gridLine lat origin (Fin 0) (Fin (r * 2)) = Inr (Fin (2 * ?s))"
    using gridLine_north [OF r2 r(2)] by (simp only: gridStep_double)
  have s1: "gridLine lat origin (Fin 180) (Fin r) = Inr (Fin (- ?s))" using r(1) r1 by (rule gridLine_south)
  have s2: "gridLine lat origin (Fin 180) (Fin (r * 2)) = Inr (Fin (- (2 * ?s)))"
    using gridLine_south [OF r2 r(2)] by (simp only: gridStep_double)
  have e1: "gridLine lng origin (Fin 90) (Fin r) = Inr (Fin ?s)" using r(1) r1 by (rule gridLine_east)
  have e2: "gridLine lng origin (Fin 90) (Fin (r * 2)) = Inr (Fin (2 * ?s))"
    using gridLine_east [OF r2 r(2)] by (simp only: gridStep_double)
  have w1: "gridLine lng origin (Fin 270) (Fin r) = Inr (Fin (- ?s))" using r(1) r1 by (rule gridLine_west)
  have w2: "gridLine lng origin (Fin 270) (Fin (r * 2)) = Inr (Fin (- (2 * ?s)))"
    using gridLine_west [OF r2 r(2)] by (simp only: gridStep_double)
  have p1: "gridPush lat origin (Fin 0) (Fin r) (lat (corner a a)) 2
      (latGrid initialRouteBoxer @ [lat origin, Fin ?s]) = Some (Inr [Fin 0, Fin ?s, Fin (2 * ?s)])"
    using gridPush_two [OF n2 a] by (simp add: corner_def origin_def initialRouteBoxer_def)
  have u1: "gridUnshift lat origin (Fin 180) (Fin r) (lat (corner (- a) (- a))) 1
      [Fin 0, Fin ?s, Fin (2 * ?s)] = Some (Inr (lines5 ?s))"
    using gridUnshift_two [OF s1 s2 a] by (simp add: corner_def)
  have p2: "gridPush lng origin (Fin 90) (Fin r) (lng (corner a a)) 2
      (lngGrid initialRouteBoxer @ [lng origin, Fin ?s]) = Some (Inr [Fin 0, Fin ?s, Fin (2 * ?s)])"
    using gridPush_two [OF e2 a] by (simp add: corner_def origin_def initialRouteBoxer_def)
  have u2: "gridUnshift lng origin (Fin 270) (Fin r) (lng (corner (- a) (- a))) 1
      [Fin 0, Fin ?s, Fin (2 * ?s)] = Some (Inr (lines5 ?s))"
    using gridUnshift_two [OF w1 w2 a] by (simp add: corner_def)
  have "buildGrid initialRouteBoxer [corner (- a) (- a), corner (- a) a, corner a a] (Fin r)
      = Some (Inr (initialRouteBoxer\<lparr>latGrid := lines5 ?s, lngGrid := lines5 ?s,
           grid := Some (replicate (length (lines5 ?s)) (newRow (length (lines5 ?s))))\<rparr>))"
    using extendAll_cornerRoute [OF a(1)] c n1 p1 u1 e1 p2 u2 by (rule buildGrid_eval)
  moreover have "length (lines5 ?s) = 5" by (simp add: lines5_def)
  moreover have "replicate 5 (newRow 5) = [newRow 5, newRow 5, newRow 5, newRow 5, newRow 5]"
    by (simp add: numeral_eq_Suc)
  ultimately show ?thesis by (simp only: emptyGrid5_def initialRouteBoxer_def routeboxer.simps)
qed

section \<open>The cells of the route around a corner\<close>

text \<open>
  \<^verbatim>\<open>findIntersectingCells_\<close> on the route: the first point is in the cell \<open>(1, 1)\<close>, the
  second in \<open>(2, 1)\<close>, the third in \<open>(2, 2)\<close>; each step is to an adjacent cell, so that no
  intersection is looked for.
\<close>

lemma setRow_row5: "0 \<le> y \<Longrightarrow> y < 5 \<Longrightarrow> setRow (row5 S) y = row5 (insert y S)"
  by (simp add: setRow_def row5_def)

lemma newRow5: "newRow 5 = row5 {}"
  by (simp add: newRow_def row5_def)

lemma markCell_row5_1:
  assumes "grid st = Some [row5 A, row5 B, row5 C, r3, r4]" "1 \<le> y" "y \<le> 3"
  shows "markCell st (1, y) = Inr (st\<lparr>grid := Some [row5 (A \<union> {y - 1, y, y + 1}), row5 (B \<union> {y - 1, y, y + 1}),
                                                  row5 (C \<union> {y - 1, y, y + 1}), r3, r4]\<rparr>)"
  using assms
  by (simp add: markCell_def setCell_def ebind_def deref_def setRow_row5 insert_commute)

lemma markCell_row5_2:
  assumes "grid st = Some [r0, row5 A, row5 B, row5 C, r4]" "1 \<le> y" "y \<le> 3"
  shows "markCell st (2, y) = Inr (st\<lparr>grid := Some [r0, row5 (A \<union> {y - 1, y, y + 1}), row5 (B \<union> {y - 1, y, y + 1}),
                                                  row5 (C \<union> {y - 1, y, y + 1}), r4]\<rparr>)"
  using assms
  by (simp add: markCell_def setCell_def ebind_def deref_def setRow_row5 insert_commute)

lemma scan_A: "0 < a \<Longrightarrow> a < s \<Longrightarrow> scanCell (lines5 s) (Fin (- a)) 0 = 2"
  by (simp add: scanCell.simps lines5_def js_nth_def)

lemma scanUp_1: "0 < a \<Longrightarrow> a < s \<Longrightarrow> scanUp (lines5 s) (Fin a) 1 = 2"
  by (simp add: scanUp.simps lines5_def js_nth_def)

lemma scanDown_1: "0 < a \<Longrightarrow> a < s \<Longrightarrow> scanDown (lines5 s) (Fin (- a)) 1 = 1"
  by (simp add: scanDown.simps lines5_def js_nth_def js_gt_def)

lemma scanDown_2: "0 < a \<Longrightarrow> a < s \<Longrightarrow> scanDown (lines5 s) (Fin a) 2 = 2"
  by (simp add: scanDown.simps lines5_def js_nth_def js_gt_def)

lemma findIntersectingCells_cornerRoute:
  assumes a: "0 < a" "a < s"
  shows "findIntersectingCells (emptyGrid5 s) [corner (- a) (- a), corner (- a) a, corner a a]
     = Inr (markedGrid5 s)"
proof -
  let ?A = "corner (- a) (- a)" and ?B = "corner (- a) a" and ?C = "corner a a"
  define st1 where "st1 = emptyGrid5 s\<lparr>grid := Some [row5 ({} \<union> {1 - 1, 1, 1 + 1}),
      row5 ({} \<union> {1 - 1, 1, 1 + 1}), row5 ({} \<union> {1 - 1, 1, 1 + 1}), row5 {}, row5 {}]\<rparr>"
  define st2 where "st2 = st1\<lparr>grid := Some [row5 ({} \<union> {1 - 1, 1, 1 + 1}),
      row5 (({} \<union> {1 - 1, 1, 1 + 1}) \<union> {1 - 1, 1, 1 + 1}), row5 (({} \<union> {1 - 1, 1, 1 + 1}) \<union> {1 - 1, 1, 1 + 1}),
      row5 ({} \<union> {1 - 1, 1, 1 + 1}), row5 {}]\<rparr>"
  define st3 where "st3 = st2\<lparr>grid := Some [row5 ({} \<union> {1 - 1, 1, 1 + 1}),
      row5 ((({} \<union> {1 - 1, 1, 1 + 1}) \<union> {1 - 1, 1, 1 + 1}) \<union> {2 - 1, 2, 2 + 1}),
      row5 ((({} \<union> {1 - 1, 1, 1 + 1}) \<union> {1 - 1, 1, 1 + 1}) \<union> {2 - 1, 2, 2 + 1}),
      row5 (({} \<union> {1 - 1, 1, 1 + 1}) \<union> {2 - 1, 2, 2 + 1}), row5 {}]\<rparr>"
  have lists: "latGrid st1 = lines5 s" "lngGrid st1 = lines5 s" "latGrid st2 = lines5 s" "lngGrid st2 = lines5 s"
    "latGrid (emptyGrid5 s) = lines5 s" "lngGrid (emptyGrid5 s) = lines5 s"
    by (simp_all add: st1_def st2_def emptyGrid5_def)
  have c0: "getCellCoords (emptyGrid5 s) ?A = (1, 1)"
    by (simp add: getCellCoords_def lists corner_def scan_A [OF a])
  have m1: "markCell (emptyGrid5 s) (1, 1) = Inr st1"
    unfolding st1_def by (rule markCell_row5_1) (simp_all add: emptyGrid5_def newRow5)
  have c1: "getGridCoordsFromHint st1 ?B ?A (1, 1) = (2, 1)"
    using a by (simp add: getGridCoordsFromHint_def lists corner_def js_gt_def scanUp_1 [OF a] scanDown_1 [OF a])
  have m2: "markCell st1 (2, 1) = Inr st2"
    unfolding st2_def by (rule markCell_row5_2) (simp_all add: st1_def)
  have c2: "getGridCoordsFromHint st2 ?C ?B (2, 1) = (2, 2)"
    using a by (simp add: getGridCoordsFromHint_def lists corner_def js_gt_def scanUp_1 [OF a] scanDown_2 [OF a])
  have m3: "markCell st2 (2, 2) = Inr st3"
    unfolding st3_def by (rule markCell_row5_2) (simp_all add: st2_def)
  have w: "walk st1 ?A (1, 1) [?B, ?C] = Inr st3"
    by (simp add: c1 c2 m2 m3 ebind_def)
  have r5: "\<And>S T. S = T \<Longrightarrow> row5 S = row5 T" by simp
  have "st3 = markedGrid5 s"
    unfolding st3_def st2_def st1_def
    by (simp add: emptyGrid5_def markedGrid5_def) (rule r5, auto)
  with w show ?thesis
    by (simp add: findIntersectingCells_def c0 m1 ebind_def)
qed

section \<open>The two sweeps on the route around a corner\<close>

text \<open>One cell of a sweep, on the marked grid.\<close>

lemma upt5: "[0..<5] = [0, 1, 2, 3, 4]"
  by code_simp

lemma js_nth_lines5: "0 \<le> k \<Longrightarrow> k \<le> 4 \<Longrightarrow> js_nth (lines5 s) k = JNum (Fin (lineAt s k))"
proof -
  assume "0 \<le> k" "k \<le> 4"
  then consider "k = 0" | "k = 1" | "k = 2" | "k = 3" | "k = 4" by linarith
  then show ?thesis
    by cases (simp_all add: js_nth_def lines5_def lineAt_def)
qed

lemma LatLngBounds_ordered:
  assumes "a \<le> c" "b \<le> d"
  shows "LatLngBounds (corner a b) (corner c d) = Inr (rect a b c d)"
  using assms
  by (simp add: LatLngBounds_def boundsExtend_def emptyBounds_def corner_def LatLng_Fin ebind_def
      Math_min_def Math_max_def rect_def)

lemma getCellBounds_lines5:
  assumes "latGrid st = lines5 s" "lngGrid st = lines5 s" "0 < s" "0 \<le> x" "x \<le> 3" "0 \<le> y" "y \<le> 3"
  shows "getCellBounds st (x, y) = Inr (rect (lineAt s y) (lineAt s x) (lineAt s (y + 1)) (lineAt s (x + 1)))"
proof -
  have "lineAt s y \<le> lineAt s (y + 1)" "lineAt s x \<le> lineAt s (x + 1)"
    using assms(3) by (simp_all add: lineAt_def algebra_simps)
  from LatLngBounds_ordered [OF this] show ?thesis
    using assms
    by (simp add: getCellBounds_def js_nth_lines5 LatLng_Fin ebind_def corner_def)
qed

lemma extendBy_rect:
  assumes "a \<le> c" "b \<le> d" "c \<le> e" "d \<le> f"
  shows "extendBy (rect a b c d) (northEast (rect a' b' e f)) = Inr (rect a b e f)"
  using assms
  by (simp add: extendBy_def boundsExtend_def rect_def corner_def Math_min_def Math_max_def)

lemma st5_lists [simp]: "latGrid (st5 s X Y) = lines5 s" "lngGrid (st5 s X Y) = lines5 s"
    "boxesX (st5 s X Y) = X" "boxesY (st5 s X Y) = Y"
  by (simp_all add: st5_def markedGrid5_def)

lemma cellMarked_low:
  assumes "0 \<le> x" "x \<le> 3" "0 \<le> y" "y \<le> 2"
  shows "cellMarked (st5 s X Y) x y = Inr True"
proof -
  from assms(3,4) have yy: "y = 0 \<or> y = 1 \<or> y = 2" by linarith
  from assms(1,2) consider "x = 0" | "x = 1" | "x = 2" | "x = 3" by linarith
  then show ?thesis
    using yy by cases (auto simp: cellMarked_def st5_def markedGrid5_def row5_def deref_def ebind_def)
qed

lemma cellMarked_top:
  assumes "1 \<le> x" "x \<le> 3"
  shows "cellMarked (st5 s X Y) x 3 = Inr True"
proof -
  from assms consider "x = 1" | "x = 2" | "x = 3" by linarith
  then show ?thesis
    by cases (simp_all add: cellMarked_def st5_def markedGrid5_def row5_def deref_def ebind_def)
qed

lemma cellMarked_out:
  "cellMarked (st5 s X Y) 0 3 = Inr False"
  "cellMarked (st5 s X Y) 4 y = Inr False"
  "0 \<le> x \<Longrightarrow> x \<le> 4 \<Longrightarrow> cellMarked (st5 s X Y) x 4 = Inr False"
proof -
  show "cellMarked (st5 s X Y) 0 3 = Inr False" "cellMarked (st5 s X Y) 4 y = Inr False"
    by (simp_all add: cellMarked_def st5_def markedGrid5_def row5_def deref_def ebind_def)
  assume "0 \<le> x" "x \<le> 4"
  then consider "x = 0" | "x = 1" | "x = 2" | "x = 3" | "x = 4" by linarith
  then show "cellMarked (st5 s X Y) x 4 = Inr False"
    by cases (simp_all add: cellMarked_def st5_def markedGrid5_def row5_def deref_def ebind_def)
qed

lemma mergeBoxesY_st5:
  "mergeBoxes matchY Y b = Inr Y' \<Longrightarrow> mergeBoxesY (st5 s X Y) (Some b) = Inr (st5 s X Y')"
  by (simp add: mergeBoxesY_def ebind_def st5_def)

lemma mergeBoxesX_st5:
  "mergeBoxes matchX X b = Inr X' \<Longrightarrow> mergeBoxesX (st5 s X Y) (Some b) = Inr (st5 s X' Y)"
  by (simp add: mergeBoxesX_def ebind_def st5_def)

lemma mergeBoxesY_None [simp]: "mergeBoxesY st None = Inr st"
  by (simp add: mergeBoxesY_def)

lemma mergeBoxesX_None [simp]: "mergeBoxesX st None = Inr st"
  by (simp add: mergeBoxesX_def)

lemma sweepCell_unmarked:
  "cellMarked st x y = Inr False \<Longrightarrow> merge st cb = Inr st'
    \<Longrightarrow> sweepCell merge st cb (x, y) = Inr (st', None)"
  by (simp add: sweepCell_def ebind_def)

lemma lineAt_le: "0 < s \<Longrightarrow> i \<le> j \<Longrightarrow> lineAt s i \<le> lineAt s j"
  by (simp add: lineAt_def)

lemma sweepCell_start:
  assumes "cellMarked st x y = Inr True" "latGrid st = lines5 s" "lngGrid st = lines5 s" "0 < s"
    "0 \<le> x" "x \<le> 3" "0 \<le> y" "y \<le> 3"
  shows "sweepCell merge st None (x, y)
    = Inr (st, Some (rect (lineAt s y) (lineAt s x) (lineAt s (y + 1)) (lineAt s (x + 1))))"
  using assms(1) getCellBounds_lines5 [OF assms(2-8)] by (simp add: sweepCell_def ebind_def)

lemma sweepCell_east:
  assumes "cellMarked st x y = Inr True" "latGrid st = lines5 s" "lngGrid st = lines5 s" "0 < s"
    "0 \<le> x" "x \<le> 3" "0 \<le> y" "y \<le> 3" "x0 \<le> x"
  shows "sweepCell merge st (Some (rect (lineAt s y) (lineAt s x0) (lineAt s (y + 1)) (lineAt s x))) (x, y)
    = Inr (st, Some (rect (lineAt s y) (lineAt s x0) (lineAt s (y + 1)) (lineAt s (x + 1))))"
proof -
  have "extendBy (rect (lineAt s y) (lineAt s x0) (lineAt s (y + 1)) (lineAt s x))
          (northEast (rect (lineAt s y) (lineAt s x) (lineAt s (y + 1)) (lineAt s (x + 1))))
        = Inr (rect (lineAt s y) (lineAt s x0) (lineAt s (y + 1)) (lineAt s (x + 1)))"
    using assms(4,9) by (intro extendBy_rect lineAt_le) simp_all
  then show ?thesis
    using assms(1) getCellBounds_lines5 [OF assms(2-8)] by (simp add: sweepCell_def ebind_def)
qed

lemma sweepCell_north:
  assumes "cellMarked st x y = Inr True" "latGrid st = lines5 s" "lngGrid st = lines5 s" "0 < s"
    "0 \<le> x" "x \<le> 3" "0 \<le> y" "y \<le> 3" "y0 \<le> y"
  shows "sweepCell merge st (Some (rect (lineAt s y0) (lineAt s x) (lineAt s y) (lineAt s (x + 1)))) (x, y)
    = Inr (st, Some (rect (lineAt s y0) (lineAt s x) (lineAt s (y + 1)) (lineAt s (x + 1))))"
proof -
  have "extendBy (rect (lineAt s y0) (lineAt s x) (lineAt s y) (lineAt s (x + 1)))
          (northEast (rect (lineAt s y) (lineAt s x) (lineAt s (y + 1)) (lineAt s (x + 1))))
        = Inr (rect (lineAt s y0) (lineAt s x) (lineAt s (y + 1)) (lineAt s (x + 1)))"
    using assms(4,9) by (intro extendBy_rect lineAt_le) simp_all
  then show ?thesis
    using assms(1) getCellBounds_lines5 [OF assms(2-8)] by (simp add: sweepCell_def ebind_def)
qed

lemma sweepRow_low:
  assumes s: "0 < s" and y: "0 \<le> y" "y \<le> 2"
    and m: "mergeBoxes matchY Y (rect (lineAt s y) (lineAt s 0) (lineAt s (y + 1)) (lineAt s 4)) = Inr Y'"
  shows "sweepRow (st5 s X Y) None y [0, 1, 2, 3, 4] = Inr (st5 s X Y', None)"
proof -
  let ?st = "st5 s X Y"
  have c0: "sweepCell mergeBoxesY ?st None (0, y)
      = Inr (?st, Some (rect (lineAt s y) (lineAt s 0) (lineAt s (y + 1)) (lineAt s (0 + 1))))"
    using s y by (intro sweepCell_start cellMarked_low) simp_all
  have ex: "sweepCell mergeBoxesY ?st (Some (rect (lineAt s y) (lineAt s 0) (lineAt s (y + 1)) (lineAt s x))) (x, y)
      = Inr (?st, Some (rect (lineAt s y) (lineAt s 0) (lineAt s (y + 1)) (lineAt s (x + 1))))"
    if "1 \<le> x" "x \<le> 3" for x
    using s y that by (intro sweepCell_east cellMarked_low) simp_all
  have c4: "sweepCell mergeBoxesY ?st (Some (rect (lineAt s y) (lineAt s 0) (lineAt s (y + 1)) (lineAt s 4))) (4, y)
      = Inr (st5 s X Y', None)"
    by (rule sweepCell_unmarked) (simp_all add: cellMarked_out mergeBoxesY_st5 [OF m])
  show ?thesis
    using c0 ex [of 1] ex [of 2] ex [of 3] c4 by (simp add: ebind_def)
qed

lemma sweepRow_top:
  assumes s: "0 < s"
    and m: "mergeBoxes matchY Y (rect (lineAt s 3) (lineAt s 1) (lineAt s 4) (lineAt s 4)) = Inr Y'"
  shows "sweepRow (st5 s X Y) None 3 [0, 1, 2, 3, 4] = Inr (st5 s X Y', None)"
proof -
  let ?st = "st5 s X Y"
  have c0: "sweepCell mergeBoxesY ?st None (0, 3) = Inr (?st, None)"
    by (rule sweepCell_unmarked) (simp_all add: cellMarked_out)
  have c1: "sweepCell mergeBoxesY ?st None (1, 3)
      = Inr (?st, Some (rect (lineAt s 3) (lineAt s 1) (lineAt s (3 + 1)) (lineAt s (1 + 1))))"
    using s by (intro sweepCell_start cellMarked_top) simp_all
  have ex: "sweepCell mergeBoxesY ?st (Some (rect (lineAt s 3) (lineAt s 1) (lineAt s (3 + 1)) (lineAt s x))) (x, 3)
      = Inr (?st, Some (rect (lineAt s 3) (lineAt s 1) (lineAt s (3 + 1)) (lineAt s (x + 1))))"
    if "2 \<le> x" "x \<le> 3" for x
    using s that by (intro sweepCell_east cellMarked_top) simp_all
  have c4: "sweepCell mergeBoxesY ?st (Some (rect (lineAt s 3) (lineAt s 1) (lineAt s 4) (lineAt s 4))) (4, 3)
      = Inr (st5 s X Y', None)"
    by (rule sweepCell_unmarked) (simp_all add: cellMarked_out mergeBoxesY_st5 [OF m])
  show ?thesis
    using c0 c1 ex [of 2] ex [of 3] c4 by (simp add: ebind_def)
qed

lemma sweepRow_none:
  "sweepRow (st5 s X Y) None 4 [0, 1, 2, 3, 4] = Inr (st5 s X Y, None)"
proof -
  have "sweepCell mergeBoxesY (st5 s X Y) None (x, 4) = Inr (st5 s X Y, None)" if "0 \<le> x" "x \<le> 4" for x
    using that by (intro sweepCell_unmarked cellMarked_out) simp_all
  from this [of 0] this [of 1] this [of 2] this [of 3] this [of 4] show ?thesis
    by (simp add: ebind_def)
qed

lemma sweepCol_west:
  assumes s: "0 < s"
    and m: "mergeBoxes matchX X (rect (lineAt s 0) (lineAt s 0) (lineAt s 3) (lineAt s 1)) = Inr X'"
  shows "sweepCol (st5 s X Y) None 0 [0, 1, 2, 3, 4] = Inr (st5 s X' Y, None)"
proof -
  let ?st = "st5 s X Y"
  have c0: "sweepCell mergeBoxesX ?st None (0, 0)
      = Inr (?st, Some (rect (lineAt s 0) (lineAt s 0) (lineAt s (0 + 1)) (lineAt s (0 + 1))))"
    using s by (intro sweepCell_start cellMarked_low) simp_all
  have ex: "sweepCell mergeBoxesX ?st (Some (rect (lineAt s 0) (lineAt s 0) (lineAt s y) (lineAt s (0 + 1)))) (0, y)
      = Inr (?st, Some (rect (lineAt s 0) (lineAt s 0) (lineAt s (y + 1)) (lineAt s (0 + 1))))"
    if "1 \<le> y" "y \<le> 2" for y
    using s that by (intro sweepCell_north cellMarked_low) simp_all
  have c3: "sweepCell mergeBoxesX ?st (Some (rect (lineAt s 0) (lineAt s 0) (lineAt s 3) (lineAt s 1))) (0, 3)
      = Inr (st5 s X' Y, None)"
    by (rule sweepCell_unmarked) (simp_all add: cellMarked_out mergeBoxesX_st5 [OF m])
  have c4: "sweepCell mergeBoxesX (st5 s X' Y) None (0, 4) = Inr (st5 s X' Y, None)"
    by (rule sweepCell_unmarked) (simp_all add: cellMarked_out)
  show ?thesis
    using c0 ex [of 1] ex [of 2] c3 c4 by (simp add: ebind_def)
qed

lemma sweepCol_mid:
  assumes s: "0 < s" and x: "1 \<le> x" "x \<le> 3"
    and m: "mergeBoxes matchX X (rect (lineAt s 0) (lineAt s x) (lineAt s 4) (lineAt s (x + 1))) = Inr X'"
  shows "sweepCol (st5 s X Y) None x [0, 1, 2, 3, 4] = Inr (st5 s X' Y, None)"
proof -
  let ?st = "st5 s X Y"
  have c0: "sweepCell mergeBoxesX ?st None (x, 0)
      = Inr (?st, Some (rect (lineAt s 0) (lineAt s x) (lineAt s (0 + 1)) (lineAt s (x + 1))))"
    using s x by (intro sweepCell_start cellMarked_low) simp_all
  have ex: "sweepCell mergeBoxesX ?st (Some (rect (lineAt s 0) (lineAt s x) (lineAt s y) (lineAt s (x + 1)))) (x, y)
      = Inr (?st, Some (rect (lineAt s 0) (lineAt s x) (lineAt s (y + 1)) (lineAt s (x + 1))))"
    if "1 \<le> y" "y \<le> 2" for y
    using s x that by (intro sweepCell_north cellMarked_low) simp_all
  have c3: "sweepCell mergeBoxesX ?st (Some (rect (lineAt s 0) (lineAt s x) (lineAt s 3) (lineAt s (x + 1)))) (x, 3)
      = Inr (?st, Some (rect (lineAt s 0) (lineAt s x) (lineAt s (3 + 1)) (lineAt s (x + 1))))"
    using s x by (intro sweepCell_north cellMarked_top) simp_all
  have c4: "sweepCell mergeBoxesX ?st (Some (rect (lineAt s 0) (lineAt s x) (lineAt s 4) (lineAt s (x + 1)))) (x, 4)
      = Inr (st5 s X' Y, None)"
    using x by (intro sweepCell_unmarked cellMarked_out) (simp_all add: mergeBoxesX_st5 [OF m])
  show ?thesis
    using c0 ex [of 1] ex [of 2] c3 c4 by (simp add: ebind_def)
qed

lemma sweepCol_none:
  "sweepCol (st5 s X Y) None 4 [0, 1, 2, 3, 4] = Inr (st5 s X Y, None)"
proof -
  have "sweepCell mergeBoxesX (st5 s X Y) None (4, y) = Inr (st5 s X Y, None)" for y
    by (intro sweepCell_unmarked cellMarked_out) simp_all
  from this [of 0] this [of 1] this [of 2] this [of 3] this [of 4] show ?thesis
    by (simp add: ebind_def)
qed

text \<open>
  The row sweep merges the rows 0, 1 and 2, which have the same extent, into one box,
  and adds the shorter row 3; the column sweep keeps column 0 apart, which is lower
  than the columns 1, 2 and 3, and merges these into one box.
\<close>

lemma matchY_rect: "matchY (rect a b c d) (rect a' b' c' d') = Inr (c = a' \<and> b = b' \<and> d = d')"
  by (simp add: matchY_def rect_def corner_def deref_def ebind_def js_eq_def)

lemma matchX_rect: "matchX (rect a b c d) (rect a' b' c' d') = Inr (d = b' \<and> a = a' \<and> c = c')"
  by (simp add: matchX_def rect_def corner_def deref_def ebind_def js_eq_def)

lemma lineAt_numeral:
  "lineAt s 0 = - (2 * s)" "lineAt s 1 = - s" "lineAt s 2 = 0" "lineAt s 3 = s" "lineAt s 4 = 2 * s"
  by (simp_all add: lineAt_def)

lemma sweepRows_marked:
  assumes s: "0 < s"
  shows "sweepRows (st5 s X []) [0, 1, 2, 3, 4] [0, 1, 2, 3, 4] = Inr (st5 s X (rows5 s))"
proof -
  have m0: "mergeBoxes matchY [] (rect (lineAt s 0) (lineAt s 0) (lineAt s (0 + 1)) (lineAt s 4))
      = Inr [rect (- (2 * s)) (- (2 * s)) (- s) (2 * s)]"
    by (simp add: lineAt_numeral)
  have m1: "mergeBoxes matchY [rect (- (2 * s)) (- (2 * s)) (- s) (2 * s)]
        (rect (lineAt s 1) (lineAt s 0) (lineAt s (1 + 1)) (lineAt s 4))
      = Inr [rect (- (2 * s)) (- (2 * s)) 0 (2 * s)]"
    using s by (simp add: lineAt_numeral matchY_rect extendBy_rect ebind_def)
  have m2: "mergeBoxes matchY [rect (- (2 * s)) (- (2 * s)) 0 (2 * s)]
        (rect (lineAt s 2) (lineAt s 0) (lineAt s (2 + 1)) (lineAt s 4))
      = Inr [rect (- (2 * s)) (- (2 * s)) s (2 * s)]"
    using s by (simp add: lineAt_numeral matchY_rect extendBy_rect ebind_def)
  have m3: "mergeBoxes matchY [rect (- (2 * s)) (- (2 * s)) s (2 * s)]
        (rect (lineAt s 3) (lineAt s 1) (lineAt s 4) (lineAt s 4))
      = Inr (rows5 s)"
    using s by (simp add: lineAt_numeral matchY_rect ebind_def rows5_def)
  have r0: "sweepRow (st5 s X []) None (int 0) [0, 1, 2, 3, 4]
      = Inr (st5 s X [rect (- (2 * s)) (- (2 * s)) (- s) (2 * s)], None)"
    using sweepRow_low [OF s _ _ m0] by simp
  have r1: "sweepRow (st5 s X [rect (- (2 * s)) (- (2 * s)) (- s) (2 * s)]) None (int 1) [0, 1, 2, 3, 4]
      = Inr (st5 s X [rect (- (2 * s)) (- (2 * s)) 0 (2 * s)], None)"
    using sweepRow_low [OF s _ _ m1] by simp
  have r2: "sweepRow (st5 s X [rect (- (2 * s)) (- (2 * s)) 0 (2 * s)]) None (int 2) [0, 1, 2, 3, 4]
      = Inr (st5 s X [rect (- (2 * s)) (- (2 * s)) s (2 * s)], None)"
    using sweepRow_low [OF s _ _ m2] by simp
  have r3: "sweepRow (st5 s X [rect (- (2 * s)) (- (2 * s)) s (2 * s)]) None (int 3) [0, 1, 2, 3, 4]
      = Inr (st5 s X (rows5 s), None)"
    using sweepRow_top [OF s m3] by simp
  have r4: "sweepRow (st5 s X (rows5 s)) None (int 4) [0, 1, 2, 3, 4] = Inr (st5 s X (rows5 s), None)"
    using sweepRow_none by simp
  show ?thesis
    by (simp only: sweepRows.simps r0 r1 r2 r3 r4 ebind_def sum.case prod.case mergeBoxesY_None)
qed

lemma sweepCols_marked:
  assumes s: "0 < s"
  shows "sweepCols (st5 s [] Y) [0, 1, 2, 3, 4] [0, 1, 2, 3, 4] = Inr (st5 s (cols5 s) Y)"
proof -
  have m0: "mergeBoxes matchX [] (rect (lineAt s 0) (lineAt s 0) (lineAt s 3) (lineAt s 1))
      = Inr [rect (- (2 * s)) (- (2 * s)) s (- s)]"
    by (simp add: lineAt_numeral)
  have m1: "mergeBoxes matchX [rect (- (2 * s)) (- (2 * s)) s (- s)]
        (rect (lineAt s 0) (lineAt s 1) (lineAt s 4) (lineAt s (1 + 1)))
      = Inr [rect (- (2 * s)) (- (2 * s)) s (- s), rect (- (2 * s)) (- s) (2 * s) 0]"
    using s by (simp add: lineAt_numeral matchX_rect ebind_def)
  have m2: "mergeBoxes matchX [rect (- (2 * s)) (- (2 * s)) s (- s), rect (- (2 * s)) (- s) (2 * s) 0]
        (rect (lineAt s 0) (lineAt s 2) (lineAt s 4) (lineAt s (2 + 1)))
      = Inr [rect (- (2 * s)) (- (2 * s)) s (- s), rect (- (2 * s)) (- s) (2 * s) s]"
    using s by (simp add: lineAt_numeral matchX_rect extendBy_rect ebind_def)
  have m3: "mergeBoxes matchX [rect (- (2 * s)) (- (2 * s)) s (- s), rect (- (2 * s)) (- s) (2 * s) s]
        (rect (lineAt s 0) (lineAt s 3) (lineAt s 4) (lineAt s (3 + 1)))
      = Inr (cols5 s)"
    using s by (simp add: lineAt_numeral matchX_rect extendBy_rect ebind_def cols5_def)
  have c0: "sweepCol (st5 s [] Y) None (int 0) [0, 1, 2, 3, 4]
      = Inr (st5 s [rect (- (2 * s)) (- (2 * s)) s (- s)] Y, None)"
    using sweepCol_west [OF s m0] by simp
  have c1: "sweepCol (st5 s [rect (- (2 * s)) (- (2 * s)) s (- s)] Y) None (int 1) [0, 1, 2, 3, 4]
      = Inr (st5 s [rect (- (2 * s)) (- (2 * s)) s (- s), rect (- (2 * s)) (- s) (2 * s) 0] Y, None)"
    using sweepCol_mid [OF s _ _ m1] by simp
  have c2: "sweepCol (st5 s [rect (- (2 * s)) (- (2 * s)) s (- s), rect (- (2 * s)) (- s) (2 * s) 0] Y) None (int 2)
        [0, 1, 2, 3, 4]
      = Inr (st5 s [rect (- (2 * s)) (- (2 * s)) s (- s), rect (- (2 * s)) (- s) (2 * s) s] Y, None)"
    using sweepCol_mid [OF s _ _ m2] by simp
  have c3: "sweepCol (st5 s [rect (- (2 * s)) (- (2 * s)) s (- s), rect (- (2 * s)) (- s) (2 * s) s] Y) None (int 3)
        [0, 1, 2, 3, 4]
      = Inr (st5 s (cols5 s) Y, None)"
    using sweepCol_mid [OF s _ _ m3] by simp
  have c4: "sweepCol (st5 s (cols5 s) Y) None (int 4) [0, 1, 2, 3, 4] = Inr (st5 s (cols5 s) Y, None)"
    using sweepCol_none by simp
  show ?thesis
    by (simp only: sweepCols.simps c0 c1 c2 c3 c4 ebind_def sum.case prod.case mergeBoxesX_None)
qed

lemma markedGrid5_st5: "markedGrid5 s = st5 s [] []"
  by (simp add: st5_def markedGrid5_def)

lemma mergeIntersectingCells_marked:
  assumes s: "0 < s"
  shows "mergeIntersectingCells (markedGrid5 s) = Inr (st5 s (cols5 s) (rows5 s))"
proof -
  have g: "grid (st5 s [] []) = Some [row5 {0, 1, 2}, row5 {0, 1, 2, 3}, row5 {0, 1, 2, 3}, row5 {0, 1, 2, 3}, row5 {}]"
    by (simp add: st5_def markedGrid5_def)
  have l: "[0..<length [row5 {0, 1, 2}, row5 {0, 1, 2, 3}, row5 {0, 1, 2, 3}, row5 {0, 1, 2, 3}, row5 {}]]
      = [0, 1, 2, 3, 4]" "[0..<rowLength (row5 {0, 1, 2})] = [0, 1, 2, 3, 4]"
    by (simp_all add: row5_def upt5)
  show ?thesis
    unfolding markedGrid5_st5 mergeIntersectingCells_def g
    by (simp only: deref_def ebind_def option.case list.case sum.case l sweepRows_marked [OF s]
        sweepCols_marked [OF s])
qed

text \<open>\<^verbatim>\<open>box\<close> and \<^verbatim>\<open>mkBox\<close> on the route: both lists have two boxes.\<close>

lemma box_cornerRoute:
  assumes a: "0 < a" "a < gridStep r" and r: "0 < r" "r * 2 / 6371 < pi / 2"
  shows "box st [corner (- a) (- a), corner (- a) a, corner a a] (Fin r)
    = Some (Inr (cols5 (gridStep r), st5 (gridStep r) (cols5 (gridStep r)) (rows5 (gridStep r))))"
proof -
  have s: "0 < gridStep r" using a by simp
  have l: "length (cols5 (gridStep r)) \<le> length (rows5 (gridStep r))"
    by (simp add: cols5_def rows5_def)
  show ?thesis
    unfolding box_def reset_initial
    by (simp only: buildGrid_cornerRoute [OF a r] findIntersectingCells_cornerRoute [OF a]
        mergeIntersectingCells_marked [OF s] obind_def ebind_def option.case sum.case st5_lists l if_True)
qed

lemma toPairs_cols5: "toPairs (cols5 s) = Inr (pairs5 s)"
  by (simp add: cols5_def pairs5_def rect_def corner_def deref_def ebind_def)

lemma boxPairs_cornerRoute:
  assumes a: "0 < a" "a < gridStep r" and r: "0 < r" "r * 2 / 6371 < pi / 2"
  shows "boxPairs st (cornerRoute a) (Fin r)
    = Some (Inr (pairs5 (gridStep r), st5 (gridStep r) (cols5 (gridStep r)) (rows5 (gridStep r))))"
  unfolding boxPairs_def
  by (simp only: toLatLngs_cornerRoute box_cornerRoute [OF a r] toPairs_cols5 obind_def ebind_def
      option.case sum.case prod.case)

lemma length_cornerRoute: "length (cornerRoute a) = 3"
  by (simp add: cornerRoute_def)

lemma mkBox_cornerRoute:
  assumes a: "0 < a" "a < gridStep r" and r: "0 < r" "r * 2 / 6371 < pi / 2"
  shows "mkBox st (JArr (cornerRoute a)) (Fin r)
    = Some (Inr (pairs5 (gridStep r), st5 (gridStep r) (cols5 (gridStep r)) (rows5 (gridStep r))))"
  by (simp add: mkBox_def length_cornerRoute boxPairs_cornerRoute [OF a r])

lemma gridStep_1: "1 / 2000 < gridStep 1"
  using pi_less_4 pi_gt_zero by (simp add: gridStep_def field_simps)

lemma gridStep_mono: "r \<le> r' \<Longrightarrow> gridStep r \<le> gridStep r'"
  by (simp add: gridStep_def divide_right_mono mult_right_mono)

lemma gridStep_1000: "1 / 2000 < gridStep 1000"
  using gridStep_1 gridStep_mono [of 1 1000] by simp

lemma range_1: "(1::real) * 2 / 6371 < pi / 2"
  using pi_ge_two by simp

lemma range_1000: "(1000::real) * 2 / 6371 < pi / 2"
  using pi_ge_two by simp

lemma gridStep_neq: "gridStep 1000 \<noteq> gridStep 1"
  by (simp add: gridStep_def)


section \<open>The run around a corner, at two ranges\<close>

text \<open>
  The route with \<open>a = 1 / 2000\<close> and the range 1, and what the definitions of the two
  covers give on the state that this run leaves.
\<close>

lemma mkBox_corner_1:
  "mkBox st (JArr (cornerRoute (1 / 2000))) (Fin 1)
    = Some (Inr (pairs5 (gridStep 1), st5 (gridStep 1) (cols5 (gridStep 1)) (rows5 (gridStep 1))))"
  by (rule mkBox_cornerRoute [OF _ gridStep_1 _ range_1]) simp_all

lemma box_corner_1:
  "box st [corner (- (1 / 2000)) (- (1 / 2000)), corner (- (1 / 2000)) (1 / 2000), corner (1 / 2000) (1 / 2000)] (Fin 1)
    = Some (Inr (cols5 (gridStep 1), st5 (gridStep 1) (cols5 (gridStep 1)) (rows5 (gridStep 1))))"
  by (rule box_cornerRoute [OF _ gridStep_1 _ range_1]) simp_all

lemma st5_clear: "st5 s X Y\<lparr>boxesX := [], boxesY := []\<rparr> = st5 s [] []"
  by (simp add: st5_def)

lemma grid_st5:
  "grid (st5 s X Y) = Some [row5 {0, 1, 2}, row5 {0, 1, 2, 3}, row5 {0, 1, 2, 3}, row5 {0, 1, 2, 3}, row5 {}]"
  by (simp add: st5_def markedGrid5_def)

lemma upt_grid5:
  "[0..<length [row5 {0, 1, 2}, row5 {0, 1, 2, 3}, row5 {0, 1, 2, 3}, row5 {0, 1, 2, 3}, row5 {}]]
      = [0, 1, 2, 3, 4]" "[0..<rowLength (row5 {0, 1, 2})] = [0, 1, 2, 3, 4]"
  by (simp_all add: row5_def upt5)

lemma rowFirstCover_st5:
  assumes s: "0 < s"
  shows "rowFirstCover (st5 s X Y) = Inr (rows5 s)"
  unfolding rowFirstCover_def st5_clear grid_st5
  by (simp only: deref_def ebind_def option.case list.case sum.case upt_grid5 sweepRows_marked [OF s] st5_lists)

lemma columnFirstCover_st5:
  assumes s: "0 < s"
  shows "columnFirstCover (st5 s X Y) = Inr (cols5 s)"
  unfolding columnFirstCover_def st5_clear grid_st5
  by (simp only: deref_def ebind_def option.case list.case sum.case upt_grid5 sweepCols_marked [OF s] st5_lists)

lemma rows5_cols5: "0 < s \<Longrightarrow> cols5 s \<noteq> rows5 s"
  by (simp add: cols5_def rows5_def rect_def corner_def)

lemma pairs5_inj: "pairs5 s = pairs5 t \<Longrightarrow> s = t"
  by (simp add: pairs5_def)

section \<open>The boxes that mkBox returns\<close>

text \<open>
  C7: whenever \<^verbatim>\<open>mkBox\<close> returns boxes, from any state of the \<^verbatim>\<open>RouteBoxer\<close> object and for
  any argument, each of them has its south-west latitude at most its north-east
  latitude and its south-west longitude at most its north-east longitude.
\<close>

theorem mkBox_boxes_ordered:
  assumes "mkBox st pts dis = Some (Inr (boxes, st'))"
  shows "list_all boxOrdered boxes"
  using assms
proof (cases rule: mkBox_Inr)
  case short then show ?thesis by simp
next
  case (run ps lls bs)
  from box_ok [OF run(4)] run(5) show ?thesis by (rule toPairs_ordered)
qed

text \<open>The run around a corner returns two boxes, and they are ordered.\<close>

theorem mkBox_boxes_ordered_witness:
  "mkBox initialRouteBoxer (JArr (cornerRoute (1 / 2000))) (Fin 1)
     = Some (Inr (pairs5 (gridStep 1), st5 (gridStep 1) (cols5 (gridStep 1)) (rows5 (gridStep 1)))) \<and>
   list_all boxOrdered (pairs5 (gridStep 1))"
proof -
  note run = mkBox_corner_1 [of initialRouteBoxer]
  from mkBox_boxes_ordered [OF run] run show ?thesis by blast
qed

text \<open>
  C10: whenever \<^verbatim>\<open>mkBox\<close> returns for an array of two points or more, the array of boxes
  that it returns is not empty, whatever the distance.
\<close>

theorem mkBox_nonempty:
  assumes "mkBox st (JArr ps) dis = Some (Inr (boxes, st'))" and "2 \<le> length ps"
  shows "boxes \<noteq> []"
  using assms(1)
proof (cases rule: mkBox_Inr)
  case short
  from short(3) [OF refl] assms(2) show ?thesis by simp
next
  case (run ps' lls bs)
  from box_nonempty [OF run(4)] toPairs_length [OF run(5)] show ?thesis by auto
qed

text \<open>The run around a corner has three points, and its boxes are not none.\<close>

theorem mkBox_nonempty_witness:
  "mkBox initialRouteBoxer (JArr (cornerRoute (1 / 2000))) (Fin 1)
     = Some (Inr (pairs5 (gridStep 1), st5 (gridStep 1) (cols5 (gridStep 1)) (rows5 (gridStep 1)))) \<and>
   2 \<le> length (cornerRoute (1 / 2000)) \<and> pairs5 (gridStep 1) \<noteq> []"
proof -
  have l: "2 \<le> length (cornerRoute (1 / 2000))" by (simp add: length_cornerRoute)
  from mkBox_nonempty [OF mkBox_corner_1 [of initialRouteBoxer] l] mkBox_corner_1 [of initialRouteBoxer] l
  show ?thesis by blast
qed

section \<open>Which of the two lists box returns\<close>

text \<open>
  C2, as the code has it: whenever \<^verbatim>\<open>box\<close> returns, the state it leaves has a row-first
  cover and a column-first cover, and the list returned is the column-first cover when
  that one is not longer than the row-first cover, and the row-first cover otherwise: on
  a tie the column-first list is returned.
\<close>

theorem box_selection:
  assumes "box st path rng = Some (Inr (bs, st'))"
  shows "\<exists>rows cols. rowFirstCover st' = Inr rows \<and> columnFirstCover st' = Inr cols \<and>
           bs = (if length cols \<le> length rows then cols else rows)"
proof -
  from assms obtain st1 st2 where a: "buildGrid initialRouteBoxer path rng = Some (Inr st1)"
    and b: "findIntersectingCells st1 path = Inr st2" and c: "mergeIntersectingCells st2 = Inr st'"
    and d: "bs = (if length (boxesX st') \<le> length (boxesY st') then boxesX st' else boxesY st')"
    by (rule box_Inr)
  from buildGrid_boxes [OF a] findIntersectingCells_grows [OF b]
  have e: "boxesX st2 = []" "boxesY st2 = []" by (simp_all add: initialRouteBoxer_def grows_def)
  from c obtain r rs s where g2: "grid st2 = Some (r # rs)"
    and sr: "sweepRows st2 [0..<length (r # rs)] [0..<rowLength r] = Inr s"
    and sc: "sweepCols s [0..<rowLength r] [0..<length (r # rs)] = Inr st'"
    by (rule mergeIntersectingCells_Inr)
  from sweepRows_frame [OF sr] obtain b1 where s: "s = st2\<lparr>boxesY := b1\<rparr>" by blast
  from sweepCols_frame [OF sc] obtain b2 where st': "st' = s\<lparr>boxesX := b2\<rparr>" by blast
  have clear: "st'\<lparr>boxesX := [], boxesY := []\<rparr> = st2" using e by (cases st2) (simp add: st' s)
  have g': "grid st' = Some (r # rs)" by (simp add: st' s g2)
  have rows: "rowFirstCover st' = Inr (boxesY st')"
  proof -
    have "boxesY s = boxesY st'" by (simp add: st')
    then show ?thesis unfolding rowFirstCover_def clear g'
      by (simp only: deref_def ebind_def option.simps list.simps sum.simps sr)
  qed
  from sc have "map_sum id (\<lambda>t. t\<lparr>boxesY := b1\<rparr>) (sweepCols st2 [0..<rowLength r] [0..<length (r # rs)]) = Inr st'"
    by (simp only: s sweepCols_boxesY)
  then obtain t where t: "sweepCols st2 [0..<rowLength r] [0..<length (r # rs)] = Inr t" "st' = t\<lparr>boxesY := b1\<rparr>"
    by (cases "sweepCols st2 [0..<rowLength r] [0..<length (r # rs)]") auto
  have cols: "columnFirstCover st' = Inr (boxesX st')"
  proof -
    have "boxesX t = boxesX st'" by (simp add: t(2))
    then show ?thesis unfolding columnFirstCover_def clear g'
      by (simp only: deref_def ebind_def option.simps list.simps sum.simps t(1))
  qed
  from rows cols d show ?thesis by simp
qed

text \<open>The run around a corner returns its column-first cover.\<close>

theorem box_selection_witness:
  "box initialRouteBoxer
     [corner (- (1 / 2000)) (- (1 / 2000)), corner (- (1 / 2000)) (1 / 2000), corner (1 / 2000) (1 / 2000)] (Fin 1)
     = Some (Inr (cols5 (gridStep 1), st5 (gridStep 1) (cols5 (gridStep 1)) (rows5 (gridStep 1)))) \<and>
   (\<exists>rows cols. rowFirstCover (st5 (gridStep 1) (cols5 (gridStep 1)) (rows5 (gridStep 1))) = Inr rows \<and>
      columnFirstCover (st5 (gridStep 1) (cols5 (gridStep 1)) (rows5 (gridStep 1))) = Inr cols \<and>
      cols5 (gridStep 1) = (if length cols \<le> length rows then cols else rows))"
proof -
  note run = box_corner_1 [of initialRouteBoxer]
  from box_selection [OF run] run show ?thesis by (rule conjI [rotated])
qed

text \<open>
  In the run around a corner the two covers have two boxes each and are not the same
  list: the row-first cover is not longer than the column-first cover, and \<^verbatim>\<open>box\<close>
  returns the column-first cover.
\<close>

theorem box_selection_counterexample:
  "box initialRouteBoxer
     [corner (- (1 / 2000)) (- (1 / 2000)), corner (- (1 / 2000)) (1 / 2000), corner (1 / 2000) (1 / 2000)] (Fin 1)
     = Some (Inr (cols5 (gridStep 1), st5 (gridStep 1) (cols5 (gridStep 1)) (rows5 (gridStep 1)))) \<and>
   rowFirstCover (st5 (gridStep 1) (cols5 (gridStep 1)) (rows5 (gridStep 1))) = Inr (rows5 (gridStep 1)) \<and>
   columnFirstCover (st5 (gridStep 1) (cols5 (gridStep 1)) (rows5 (gridStep 1))) = Inr (cols5 (gridStep 1)) \<and>
   length (rows5 (gridStep 1)) \<le> length (cols5 (gridStep 1)) \<and>
   cols5 (gridStep 1) \<noteq> rows5 (gridStep 1)"
proof -
  have s: "0 < gridStep 1" using gridStep_1 by simp
  have l: "length (rows5 (gridStep 1)) \<le> length (cols5 (gridStep 1))" by (simp add: rows5_def cols5_def)
  from box_corner_1 [of initialRouteBoxer] rowFirstCover_st5 [OF s] columnFirstCover_st5 [OF s] l rows5_cols5 [OF s]
  show ?thesis by blast
qed

section \<open>The range that mkBox gives to box\<close>

text \<open>
  C1, as the code has it: for an array of two elements or more that converts to the
  points \<open>lls\<close>, \<^verbatim>\<open>mkBox\<close> is \<^verbatim>\<open>box\<close> run on \<open>lls\<close> with the range \<open>dis\<close> itself, the second
  argument of \<^verbatim>\<open>mkBox\<close> as it is given and not divided by 1000, followed by the
  conversion of the bounds to pairs.
\<close>

theorem mkBox_range_unchanged:
  assumes "2 \<le> length ps" and "toLatLngs ps = Inr lls"
  shows "mkBox st (JArr ps) dis
    = obind (box st lls dis) (\<lambda>(bounds, st'). Some (ebind (toPairs bounds) (\<lambda>boxes. Inr (boxes, st'))))"
  using assms by (simp add: mkBox_def boxPairs_def obind_def)

text \<open>The run around a corner with the distance 1000.\<close>

theorem mkBox_range_unchanged_witness:
  "2 \<le> length (cornerRoute (1 / 2000)) \<and>
   toLatLngs (cornerRoute (1 / 2000))
     = Inr [corner (- (1 / 2000)) (- (1 / 2000)), corner (- (1 / 2000)) (1 / 2000), corner (1 / 2000) (1 / 2000)] \<and>
   mkBox initialRouteBoxer (JArr (cornerRoute (1 / 2000))) (Fin 1000)
     = obind (box initialRouteBoxer
          [corner (- (1 / 2000)) (- (1 / 2000)), corner (- (1 / 2000)) (1 / 2000), corner (1 / 2000) (1 / 2000)]
          (Fin 1000))
        (\<lambda>(bounds, st'). Some (ebind (toPairs bounds) (\<lambda>boxes. Inr (boxes, st'))))"
proof -
  have l: "2 \<le> length (cornerRoute (1 / 2000))" by (simp add: length_cornerRoute)
  from mkBox_range_unchanged [OF l toLatLngs_cornerRoute] l toLatLngs_cornerRoute [of "1 / 2000"]
  show ?thesis by blast
qed

text \<open>
  With the distance 1000, \<^verbatim>\<open>mkBox\<close> returns boxes on grid lines \<open>gridStep 1000\<close> apart, and
  the computation with the range \<open>1000 / 1000\<close> returns boxes on grid lines \<open>gridStep 1\<close>
  apart: they are not the same boxes.
\<close>

theorem mkBox_range_counterexample:
  "mkBox initialRouteBoxer (JArr (cornerRoute (1 / 2000))) (Fin 1000)
     = Some (Inr (pairs5 (gridStep 1000),
                  st5 (gridStep 1000) (cols5 (gridStep 1000)) (rows5 (gridStep 1000)))) \<and>
   boxPairs initialRouteBoxer (cornerRoute (1 / 2000)) (js_div (Fin 1000) (Fin 1000))
     = Some (Inr (pairs5 (gridStep 1), st5 (gridStep 1) (cols5 (gridStep 1)) (rows5 (gridStep 1)))) \<and>
   pairs5 (gridStep 1000) \<noteq> pairs5 (gridStep 1)"
proof -
  have d: "js_div (Fin 1000) (Fin 1000) = Fin 1" by simp
  have a: "mkBox initialRouteBoxer (JArr (cornerRoute (1 / 2000))) (Fin 1000)
     = Some (Inr (pairs5 (gridStep 1000),
                  st5 (gridStep 1000) (cols5 (gridStep 1000)) (rows5 (gridStep 1000))))"
    by (rule mkBox_cornerRoute [OF _ gridStep_1000 _ range_1000]) simp_all
  have b: "boxPairs initialRouteBoxer (cornerRoute (1 / 2000)) (js_div (Fin 1000) (Fin 1000))
     = Some (Inr (pairs5 (gridStep 1), st5 (gridStep 1) (cols5 (gridStep 1)) (rows5 (gridStep 1))))"
    unfolding d by (rule boxPairs_cornerRoute [OF _ gridStep_1 _ range_1]) simp_all
  have c: "pairs5 (gridStep 1000) \<noteq> pairs5 (gridStep 1)"
    using pairs5_inj [of "gridStep 1000" "gridStep 1"] gridStep_neq by blast
  from a b c show ?thesis by blast
qed


section \<open>mkBox leaves the arrays of its caller alone\<close>

text \<open>What a new array and an assignment to a new array leave in place.\<close>

lemma allocArray_take: "allocArray h xs = (h', a) \<Longrightarrow> n \<le> length h \<Longrightarrow> take n h' = take n h \<and> n \<le> length h' \<and> n \<le> a"
  by (auto simp: allocArray_def)

lemma writeElem_take: "n \<le> a \<Longrightarrow> take n (writeElem h a i v) = take n h"
  by (simp add: writeElem_def)

lemma writeElem_length [simp]: "length (writeElem h a i v) = length h"
  by (simp add: writeElem_def)

lemma pairH_take:
  assumes "pairH h b = Inr (h', v)" "n \<le> length h"
  shows "take n h' = take n h \<and> n \<le> length h'"
  using assms
  by (auto simp: pairH_def ebind_def deref_def allocArray_def split: option.splits)

lemma mapBoxes_take:
  assumes "mapBoxes h A k bs = Inr h'" "n \<le> length h" "n \<le> A"
  shows "take n h' = take n h"
  using assms
proof (induction bs arbitrary: h k)
  case Nil
  then show ?case by simp
next
  case (Cons b bs)
  from Cons.prems(1) obtain h1 v where p: "pairH h b = Inr (h1, v)"
    and m: "mapBoxes (writeElem h1 A k v) A (Suc k) bs = Inr h'"
    by (auto simp: ebind_def split: sum.splits)
  from pairH_take [OF p Cons.prems(2)] have t: "take n h1 = take n h" and l: "n \<le> length h1" by simp_all
  from Cons.IH [OF m _ Cons.prems(3)] l have "take n h' = take n (writeElem h1 A k v)" by simp
  with writeElem_take [OF Cons.prems(3)] t show ?case by simp
qed

lemma mkBoxH_cases:
  assumes "mkBoxH h st pts dis = Some (Inr (v, h', st'))"
  obtains (short) "take (length h) h' = h"
  | (run) h1 h2 A bounds where "take (length h) h1 = h" "length h \<le> length h1"
      "allocArray h1 (replicate (length bounds) HUndefined) = (h2, A)" "mapBoxes h2 A 0 bounds = Inr h'"
proof -
  obtain h0 pts' where p: "(case pts of
                          HUndefined \<Rightarrow> (let (h', a) = allocArray h [] in (h', HRef a))
                        | _ \<Rightarrow> (h, pts)) = (h0, pts')" by (cases "(case pts of
                          HUndefined \<Rightarrow> (let (h', a) = allocArray h [] in (h', HRef a))
                        | _ \<Rightarrow> (h, pts))")
  then have h0: "take (length h) h0 = h \<and> length h \<le> length h0"
    by (cases pts) (auto simp: allocArray_def)
  obtain h1 boxes where b: "allocArray h0 [] = (h1, boxes)" by (cases "allocArray h0 []")
  with h0 have h1: "take (length h) h1 = h" "length h \<le> length h1"
    by (auto simp: allocArray_def)
  show ?thesis
  proof (cases "\<exists>a. pts' = HRef a \<and> 2 \<le> length (elemsOf h1 a)")
    case False
    with assms p b have "h' = h1"
      by (cases pts') (auto simp: mkBoxH_def)
    with h1 show ?thesis by (intro short) simp
  next
    case True
    then obtain a where a: "pts' = HRef a" "2 \<le> length (elemsOf h1 a)" by blast
    with assms p b obtain lls bounds st1 h2 A where "toLatLngsH h1 (elemsOf h1 a) = Inr lls"
      "box st lls dis = Some (Inr (bounds, st1))"
      "allocArray h1 (replicate (length bounds) HUndefined) = (h2, A)" "mapBoxes h2 A 0 bounds = Inr h'"
      by (auto simp: mkBoxH_def obind_def ebind_def split: sum.splits option.splits prod.splits)
    with h1 show ?thesis by (rule_tac run)
  qed
qed

text \<open>
  Reading the points from the store is reading them from the values that the
  references stand for.
\<close>

lemma indexH_js_index: "js_index (loadv (Suc n) h pt) i = map_sum id (loadv n h) (indexH h pt i)"
  by (cases pt) (simp_all add: js_index_def indexH_def)

lemma toLatLngsH_toLatLngs: "toLatLngsH h pts = toLatLngs (map (loadv (Suc (length h)) h) pts)"
proof (induction pts)
  case Nil
  then show ?case by simp
next
  case (Cons pt pts)
  show ?case
    by (cases "indexH h pt 0"; cases "indexH h pt 1")
      (simp_all add: indexH_js_index Cons.IH ebind_def)
qed

text \<open>The run around a corner, on the store.\<close>

lemma toLatLngsH_cornerStore:
  "toLatLngsH (cornerStore a @ [[]]) [HRef 0, HRef 1, HRef 2] = Inr [corner (- a) (- a), corner (- a) a, corner a a]"
  by (simp add: cornerStore_def indexH_def elemsOf_def corner_def LatLng_Fin ebind_def)

lemma mapBoxes_cols5:
  "mapBoxes (cornerStore a @ [[], [HUndefined, HUndefined]]) 5 0 (cols5 s) = Inr (cornerStore a @ cornerBoxes s)"
  by (simp add: cols5_def rect_def corner_def pairH_def deref_def ebind_def allocArray_def writeElem_def
      cornerStore_def cornerBoxes_def)

lemma mkBoxH_cornerStore:
  assumes a: "0 < a" "a < gridStep r" and r: "0 < r" "r * 2 / 6371 < pi / 2"
  shows "mkBoxH (cornerStore a) st (HRef 3) (Fin r)
    = Some (Inr (HRef 5, cornerStore a @ cornerBoxes (gridStep r),
                 st5 (gridStep r) (cols5 (gridStep r)) (rows5 (gridStep r))))"
proof -
  have a0: "allocArray (cornerStore a) [] = (cornerStore a @ [[]], 4)"
    by (simp add: allocArray_def cornerStore_def)
  have e: "elemsOf (cornerStore a @ [[]]) 3 = [HRef 0, HRef 1, HRef 2]"
    by (simp add: elemsOf_def cornerStore_def)
  have l: "(2 \<le> length [HRef 0, HRef 1, HRef 2]) = True"
    by simp
  have a1: "allocArray (cornerStore a @ [[]]) (replicate (length (cols5 (gridStep r))) HUndefined)
      = (cornerStore a @ [[], [HUndefined, HUndefined]], 5)"
    by (simp add: allocArray_def cornerStore_def cols5_def numeral_2_eq_2)
  show ?thesis
    unfolding mkBoxH_def
    by (simp only: hval.case Let_def prod.case a0 e l if_True toLatLngsH_cornerStore box_cornerRoute [OF a r]
        a1 mapBoxes_cols5 obind_def ebind_def option.case sum.case)
qed

text \<open>
  C9: when \<^verbatim>\<open>mkBox\<close> returns, every array that existed before the call, the array \<^verbatim>\<open>pts\<close>
  and every coordinate pair in it among them, has the elements that it had before the
  call: the store after the call begins with the store before the call.
\<close>

theorem mkBoxH_frame:
  assumes "mkBoxH h st pts dis = Some (Inr (v, h', st'))"
  shows "take (length h) h' = h"
  using assms
proof (cases rule: mkBoxH_cases)
  case short
  then show ?thesis .
next
  case (run h1 h2 A bounds)
  from allocArray_take [OF run(3) run(2)] have "take (length h) h2 = take (length h) h1"
    "length h \<le> length h2" "length h \<le> A" by simp_all
  with mapBoxes_take [OF run(4), of "length h"] run(1) show ?thesis by simp
qed

text \<open>
  The run around a corner adds eight arrays, the empty \<^verbatim>\<open>boxes\<close>, the array returned, and
  three for each of the two boxes, after the four of the caller.
\<close>

theorem mkBoxH_frame_witness:
  "mkBoxH (cornerStore (1 / 2000)) initialRouteBoxer (HRef 3) (Fin 1)
     = Some (Inr (HRef 5, cornerStore (1 / 2000) @ cornerBoxes (gridStep 1),
                  st5 (gridStep 1) (cols5 (gridStep 1)) (rows5 (gridStep 1)))) \<and>
   take (length (cornerStore (1 / 2000))) (cornerStore (1 / 2000) @ cornerBoxes (gridStep 1))
     = cornerStore (1 / 2000)"
proof -
  have run: "mkBoxH (cornerStore (1 / 2000)) initialRouteBoxer (HRef 3) (Fin 1)
     = Some (Inr (HRef 5, cornerStore (1 / 2000) @ cornerBoxes (gridStep 1),
                  st5 (gridStep 1) (cols5 (gridStep 1)) (rows5 (gridStep 1))))"
    by (rule mkBoxH_cornerStore [OF _ gridStep_1 _ range_1]) simp_all
  from mkBoxH_frame [OF run] run show ?thesis by blast
qed


section \<open>A destination west of -180\<close>

text \<open>
  The remainder \<^verbatim>\<open>%\<close> has the sign of its left operand. When \<^verbatim>\<open>lon1 + dLon + Math.PI\<close> is
  negative, it is left as it is, and the longitude that results is below \<open>-180\<close>: from
  \<open>(0, -179)\<close>, 1000 km to the west.
\<close>

lemma lonSum_west_from:
  "rhumbLonSum \<lparr>lat = Fin 0, lng = Fin l, alt = None\<rparr> (Fin 270) (Fin t) = Fin (l * pi / 180 - t / 6371 + pi)"
proof -
  define d where "d = t / 6371"
  define l1 where "l1 = l * pi / 180"
  have e1: "toRad (Fin 0) = Fin 0" by (simp add: toRad_def Math_PI_def)
  have e1': "toRad (Fin l) = Fin l1" by (simp add: toRad_def Math_PI_def l1_def)
  have e2: "js_div (parseFloat (Fin t)) (Fin 6371) = Fin d" by (simp add: parseFloat_def d_def)
  have e3: "js_add (Fin 0) (js_mul (Fin d) (Math_cos (Fin (3 * pi / 2)))) = Fin 0"
    by (simp add: cos_270)
  have e5: "Math_tan (js_add (js_div (Fin 0) (Fin 2)) (js_div Math_PI (Fin 4))) = Fin 1"
    by (simp add: Math_PI_def cos_45 tan_45)
  have e6: "Math_log (js_div (Fin 1) (Fin 1)) = Fin 0" by simp
  have e7: "js_sub (Fin 0) (Fin 0) = Fin 0" by (simp add: js_sub_def)
  have e8: "(if js_gt (Math_abs (Fin 0)) (Fin (1 / 10 ^ 10))
             then js_div (Fin 0) (Fin 0) else Math_cos (Fin 0)) = Fin 1"
    by (simp add: js_gt_def)
  have e9: "js_div (js_mul (Fin d) (Math_sin (Fin (3 * pi / 2)))) (Fin 1) = Fin (- d)"
    by (simp add: sin_270)
  have e10: "js_add (js_add (Fin l1) (Fin (- d))) Math_PI = Fin (l1 - d + pi)" by (simp add: Math_PI_def)
  have "rhumbLonSum \<lparr>lat = Fin 0, lng = Fin l, alt = None\<rparr> (Fin 270) (Fin t) = Fin (l1 - d + pi)"
    unfolding rhumbLonSum_def Let_def
    by (simp only: latlng.simps e1 e1' toRad_270 e2 e3 e5 e6 e7 e8 e9 e10)
  then show ?thesis by (simp only: d_def l1_def)
qed

lemma wrap_lon_negative: "- (2 * pi) < x \<Longrightarrow> x < 0 \<Longrightarrow>
  js_sub (js_mod (Fin x) (js_mul (Fin 2) Math_PI)) Math_PI = Fin (x - pi)"
proof -
  assume x: "- (2 * pi) < x" "x < 0"
  then have "- 1 < x / (2 * pi)" "x / (2 * pi) < 0" by (simp_all add: field_simps)
  then have "trunc (x / (2 * pi)) = 0" by (simp add: trunc_def ceiling_eq_iff)
  then show ?thesis by (simp add: Math_PI_def js_sub_def)
qed

lemma lat2_west_from: "rhumbLat2 \<lparr>lat = Fin 0, lng = Fin l, alt = None\<rparr> (Fin 270) (Fin t) = Fin 0"
  unfolding rhumbLat2_def Let_def toRad_270
  by (simp add: toRad_def Math_PI_def parseFloat_def js_gt_def cos_270)

lemma rhumb_west_of_minus_180:
  "rhumbDestinationPoint \<lparr>lat = Fin 0, lng = Fin (- 179), alt = None\<rparr> (Fin 270) (Fin 1000)
     = Inr (Some \<lparr>lat = Fin 0, lng = Fin (- 179 - gridStep 1000), alt = None\<rparr>)"
    "js_lt (Fin (- 179 - gridStep 1000)) (Fin (- 180))"
proof -
  let ?x = "- 179 * pi / 180 - 1000 / 6371 + pi"
  have p: "2 \<le> pi" "pi < 4" using pi_ge_two pi_less_4 by simp_all
  have "?x < 0" using p by (simp add: field_simps)
  moreover have "- (2 * pi) < ?x" using p by (simp add: field_simps)
  ultimately have "js_sub (js_mod (Fin ?x) (js_mul (Fin 2) Math_PI)) Math_PI = Fin (?x - pi)"
    by (intro wrap_lon_negative)
  then show "rhumbDestinationPoint \<lparr>lat = Fin 0, lng = Fin (- 179), alt = None\<rparr> (Fin 270) (Fin 1000)
     = Inr (Some \<lparr>lat = Fin 0, lng = Fin (- 179 - gridStep 1000), alt = None\<rparr>)"
    unfolding rhumbDestinationPoint_def Let_def lonSum_west_from lat2_west_from
    by (simp add: ebind_def toDeg_Fin LatLng_Fin gridStep_def field_simps)
  show "js_lt (Fin (- 179 - gridStep 1000)) (Fin (- 180))"
    using p by (simp add: gridStep_def field_simps)
qed

end
